theory Spec2Isabelle
  imports Main "HOL-Library.Word"
begin

section \<open>Data model\<close>

text \<open>
  Hashes are 32-byte digests and accumulated work is a \<open>uint256_t\<close>: both are 256-bit
  words, so that \<open>+=\<close> on the work wraps as the unchecked 256-bit type does. Compact
  difficulty (\<open>bits\<close>) is a 32-bit word. Heights are \<open>size_t\<close> values that
  index rows of the block table; they are modelled as natural numbers (a store never
  holds \<open>2^64\<close> rows), except in \<open>safe_add\<close>, where the bound is written out.
\<close>

type_synonym hash_digest = "256 word"
type_synonym uint256_t = "256 word"
type_synonym uint32_t = "32 word"

definition null_hash :: hash_digest where
  "null_hash = 0"

text \<open>The error codes of \<open>bc::error\<close> that the modelled functions hand to their handlers.
  \<open>validation_failed n\<close> stands for the consensus subcodes of the validator.\<close>

datatype code =
    success
  | service_stopped
  | operation_failed
  | not_found
  | duplicate_block
  | orphan_block
  | insufficient_work
  | validation_failed nat

text \<open>A block header with the fields the modelled functions read: \<open>hash()\<close>,
  \<open>previous_block_hash()\<close>, \<open>bits()\<close>, and the mutable annotation
  \<open>validation.height\<close>. Hashing itself is outside the model, the hash is a field.\<close>

record header =
  header_hash :: hash_digest
  previous_block_hash :: hash_digest
  header_bits :: uint32_t
  header_validation_height :: nat

text \<open>A row of the block table as \<open>block_result\<close> exposes it: \<open>height()\<close>,
  \<open>header()\<close>, and \<open>hash()\<close> and \<open>bits()\<close> of that header.\<close>

record block_result =
  result_height :: nat
  result_header :: header

definition result_hash :: "block_result \<Rightarrow> hash_digest" where
  "result_hash result = header_hash (result_header result)"

definition result_bits :: "block_result \<Rightarrow> uint32_t" where
  "result_bits result = header_bits (result_header result)"

text \<open>The block table \<open>database_.blocks()\<close>: \<open>top(out)\<close> fails on an empty table,
  \<open>get(height)\<close> and \<open>get(hash)\<close> return a result that tests false when the row is
  missing. The two indexes are independent fields, so that every store state the
  functions can be run against is a value of this type (gaps included).\<close>

record block_database =
  blocks_top :: "nat option"
  blocks_by_height :: "nat \<Rightarrow> block_result option"
  blocks_by_hash :: "hash_digest \<Rightarrow> block_result option"

section \<open>Fast chain readers\<close>

text \<open>\<open>block_chain::get_branch_work\<close> (the newer file). The loop
  \<open>for (height = from_height; height <= top && out_work < maximum; ++height)\<close>
  with the accumulator \<open>out_work\<close>; a missing row returns false.
  \<open>chain::block::proof\<close> is not part of the sources and is a parameter.\<close>

function branch_work_loop ::
  "(uint32_t \<Rightarrow> uint256_t) \<Rightarrow> block_database \<Rightarrow> nat \<Rightarrow> uint256_t \<Rightarrow> nat \<Rightarrow> uint256_t
     \<Rightarrow> uint256_t option" where
  "branch_work_loop block_proof db top_height maximum height out_work =
     (if height \<le> top_height \<and> out_work < maximum then
        (case blocks_by_height db height of
           None \<Rightarrow> None
         | Some result \<Rightarrow>
             branch_work_loop block_proof db top_height maximum (Suc height)
               (out_work + block_proof (result_bits result)))
      else Some out_work)"
  by pat_completeness auto
termination
  by (relation "measure (\<lambda>(block_proof, db, top_height, maximum, height, out_work). Suc top_height - height)")
    auto

declare branch_work_loop.simps [simp del]

definition get_branch_work ::
  "(uint32_t \<Rightarrow> uint256_t) \<Rightarrow> block_database \<Rightarrow> uint256_t \<Rightarrow> nat \<Rightarrow> uint256_t option" where
  "get_branch_work block_proof db maximum from_height =
     (case blocks_top db of
        None \<Rightarrow> None
      | Some top_height \<Rightarrow> branch_work_loop block_proof db top_height maximum from_height 0)"

text \<open>\<open>block_chain::get_fork_difficulty\<close> (the older file): the same walk without the
  bound, over \<open>block::difficulty\<close>, which is a parameter as well.\<close>

function fork_difficulty_loop ::
  "(uint32_t \<Rightarrow> uint256_t) \<Rightarrow> block_database \<Rightarrow> nat \<Rightarrow> nat \<Rightarrow> uint256_t \<Rightarrow> uint256_t option"
  where
  "fork_difficulty_loop block_difficulty db top_height height out_difficulty =
     (if height \<le> top_height then
        (case blocks_by_height db height of
           None \<Rightarrow> None
         | Some result \<Rightarrow>
             fork_difficulty_loop block_difficulty db top_height (Suc height)
               (out_difficulty + block_difficulty (result_bits result)))
      else Some out_difficulty)"
  by pat_completeness auto
termination
  by (relation "measure (\<lambda>(block_difficulty, db, top_height, height, out). Suc top_height - height)") auto

declare fork_difficulty_loop.simps [simp del]

definition get_fork_difficulty ::
  "(uint32_t \<Rightarrow> uint256_t) \<Rightarrow> block_database \<Rightarrow> nat \<Rightarrow> uint256_t option" where
  "get_fork_difficulty block_difficulty db from_height =
     (case blocks_top db of
        None \<Rightarrow> None
      | Some top_height \<Rightarrow> fork_difficulty_loop block_difficulty db top_height from_height 0)"

text \<open>The running sum of \<open>proof(bits)\<close> over the \<open>n\<close> rows from \<open>height\<close> on, started
  at \<open>acc\<close>; \<open>None\<close> when one of these rows cannot be read.\<close>

fun work_from ::
  "(uint32_t \<Rightarrow> uint256_t) \<Rightarrow> block_database \<Rightarrow> uint256_t \<Rightarrow> nat \<Rightarrow> nat \<Rightarrow> uint256_t option"
  where
  "work_from block_proof db acc height 0 = Some acc"
| "work_from block_proof db acc height (Suc n) =
     (case blocks_by_height db height of
        None \<Rightarrow> None
      | Some result \<Rightarrow>
          work_from block_proof db (acc + block_proof (result_bits result)) (Suc height) n)"

text \<open>The work of one row as a natural number (0 for a missing row).\<close>

definition row_work :: "(uint32_t \<Rightarrow> uint256_t) \<Rightarrow> block_database \<Rightarrow> nat \<Rightarrow> nat" where
  "row_work block_proof db height =
     (case blocks_by_height db height of
        None \<Rightarrow> 0
      | Some result \<Rightarrow> unat (block_proof (result_bits result)))"

section \<open>Safe chain: locator queries\<close>

text \<open>\<open>bc::safe_add\<close> on \<open>size_t\<close> throws \<open>std::overflow_error\<close> when the sum
  does not fit; \<open>top->...\<close> on a null pointer is the other failure the model names.\<close>

datatype exception = overflow_error | null_dereference

definition max_size_t :: nat where
  "max_size_t = 2 ^ 64 - 1"

definition safe_add :: "nat \<Rightarrow> nat \<Rightarrow> exception + nat" where
  "safe_add left right =
     (if left + right \<le> max_size_t then Inr (left + right) else Inl overflow_error)"

text \<open>The type of an inventory entry; the modelled code builds entries of type
  \<open>block\<close> only.\<close>

datatype type_id = inv_error | inv_transaction | inv_block | inv_filtered_block | inv_compact_block

record inventory_vector =
  inventory_type :: type_id
  inventory_hash :: hash_digest

record get_blocks =
  start_hashes :: "hash_digest list"
  stop_hash :: hash_digest

text \<open>Modelled from the spec: the chain state class is missing from the sources. A
  snapshot is the record \<open>{height, enabled_forks, minimum_version, work_required,
  median_time_past}\<close> of the specification's data model.\<close>

record chain_state =
  state_height :: nat
  state_enabled_forks :: uint32_t
  state_minimum_version :: uint32_t
  state_work_required :: uint32_t
  state_median_time_past :: uint32_t

text \<open>The part of \<open>block_chain\<close> the queries and \<open>reorganize\<close> touch: the store, the
  \<open>stopped_\<close> flag and the cached pool chain state.\<close>

record block_chain =
  database :: block_database
  chain_stopped :: bool
  pool_state :: "chain_state option"

text \<open>"Find the first block height. If no start block is on our chain we start with
  block 0": the first locator hash found in the store gives the start.\<close>

fun find_start :: "block_database \<Rightarrow> hash_digest list \<Rightarrow> nat" where
  "find_start db [] = 0"
| "find_start db (hash # hashes) =
     (case blocks_by_hash db hash of
        Some result \<Rightarrow> result_height result
      | None \<Rightarrow> find_start db hashes)"

text \<open>\<open>stop = min(stop_result.height(), stop)\<close> when the locator's stop hash is not null
  and is on chain.\<close>

definition limit_stop :: "block_database \<Rightarrow> hash_digest \<Rightarrow> nat \<Rightarrow> nat" where
  "limit_stop db stop_hash_value stop =
     (if stop_hash_value \<noteq> null_hash then
        (case blocks_by_hash db stop_hash_value of
           Some stop_result \<Rightarrow> min (result_height stop_result) stop
         | None \<Rightarrow> stop)
      else stop)"

text \<open>\<open>start = max(start_result.height(), start)\<close> when the threshold is not null and is
  on chain.\<close>

definition raise_start :: "block_database \<Rightarrow> hash_digest \<Rightarrow> nat \<Rightarrow> nat" where
  "raise_start db threshold start =
     (if threshold \<noteq> null_hash then
        (case blocks_by_hash db threshold of
           Some start_result \<Rightarrow> max (result_height start_result) start
         | None \<Rightarrow> start)
      else start)"

text \<open>The hash loop of the older file:
  \<open>for (index = start + 1; index < stop; ++index) { result = get(index);
  if (result) { push_back({ id, header.hash() }); break; } }\<close>.\<close>

function older_hash_loop ::
  "block_database \<Rightarrow> nat \<Rightarrow> nat \<Rightarrow> inventory_vector list \<Rightarrow> inventory_vector list" where
  "older_hash_loop db stop index hashes =
     (if index < stop then
        (case blocks_by_height db index of
           Some result \<Rightarrow>
             hashes @ [\<lparr>inventory_type = inv_block, inventory_hash = result_hash result\<rparr>]
         | None \<Rightarrow> older_hash_loop db stop (Suc index) hashes)
      else hashes)"
  by pat_completeness auto
termination
  by (relation "measure (\<lambda>(db, stop, index, hashes). stop - index)") auto

declare older_hash_loop.simps [simp del]

text \<open>The hash loop of the newer file:
  \<open>for (index = begin; index < stop; ++index) { result = get(index);
  if (!result) break; push_back({ id, header.hash() }); }\<close>.\<close>

function newer_hash_loop ::
  "block_database \<Rightarrow> nat \<Rightarrow> nat \<Rightarrow> inventory_vector list \<Rightarrow> inventory_vector list" where
  "newer_hash_loop db stop index hashes =
     (if index < stop then
        (case blocks_by_height db index of
           None \<Rightarrow> hashes
         | Some result \<Rightarrow>
             newer_hash_loop db stop (Suc index)
               (hashes @ [\<lparr>inventory_type = inv_block, inventory_hash = result_hash result\<rparr>]))
      else hashes)"
  by pat_completeness auto
termination
  by (relation "measure (\<lambda>(db, stop, index, hashes). stop - index)") auto

declare newer_hash_loop.simps [simp del]

text \<open>\<open>fetch_locator_block_hashes\<close> of the older file. The result is what the handler
  receives, \<open>(code, inventory)\<close> with \<open>None\<close> for \<open>nullptr\<close>, from a read whose
  sequence is valid (the retry loop is \<open>read_serial\<close>, below), or the exception
  of \<open>safe_add\<close>. \<open>reserve\<close> and \<open>shrink_to_fit\<close> only set the capacity of the
  list and are left out.\<close>

definition older_fetch_locator_block_hashes ::
  "block_chain \<Rightarrow> get_blocks \<Rightarrow> hash_digest \<Rightarrow> nat
     \<Rightarrow> exception + (code \<times> inventory_vector list option)" where
  "older_fetch_locator_block_hashes chain locator threshold limit =
     (if chain_stopped chain then Inr (service_stopped, None)
      else
        let db = database chain;
            start = find_start db (start_hashes locator)
        in case safe_add start limit of
             Inl e \<Rightarrow> Inl e
           | Inr start_plus_limit \<Rightarrow>
               (case safe_add start_plus_limit 1 of
                  Inl e \<Rightarrow> Inl e
                | Inr stop0 \<Rightarrow>
                    let stop = limit_stop db (stop_hash locator) stop0;
                        start' = raise_start db threshold start
                    in Inr (success, Some (older_hash_loop db stop (start' + 1) []))))"

text \<open>\<open>fetch_locator_block_hashes\<close> of the newer file: \<open>begin = safe_add(start, 1)\<close> is
  taken before the threshold is looked at, \<open>stop = safe_add(begin, limit)\<close>, and the
  loop starts at \<open>begin\<close>; the \<open>start\<close> raised by the threshold is not read again.\<close>

definition newer_fetch_locator_block_hashes ::
  "block_chain \<Rightarrow> get_blocks \<Rightarrow> hash_digest \<Rightarrow> nat
     \<Rightarrow> exception + (code \<times> inventory_vector list option)" where
  "newer_fetch_locator_block_hashes chain locator threshold limit =
     (if chain_stopped chain then Inr (service_stopped, None)
      else
        let db = database chain;
            start = find_start db (start_hashes locator)
        in case safe_add start 1 of
             Inl e \<Rightarrow> Inl e
           | Inr begin_height \<Rightarrow>
               (case safe_add begin_height limit of
                  Inl e \<Rightarrow> Inl e
                | Inr stop0 \<Rightarrow>
                    let stop = limit_stop db (stop_hash locator) stop0;
                        start' = raise_start db threshold start
                    in Inr (success, Some (newer_hash_loop db stop begin_height []))))"

section \<open>Blocks, branches and the collaborators of the organizer\<close>

text \<open>A candidate block: its header and the mutable validation annotation
  (\<open>validation.error\<close>, \<open>validation.start_notify\<close>, \<open>validation.state\<close>).
  Transactions play no part in the modelled functions.\<close>

record block =
  block_header :: header
  validation_error :: code
  validation_start_notify :: nat
  validation_state :: "chain_state option"

definition block_hash :: "block \<Rightarrow> hash_digest" where
  "block_hash blk = header_hash (block_header blk)"

record checkpoint =
  checkpoint_hash :: hash_digest
  checkpoint_height :: nat

text \<open>Modelled from the spec: the \<open>branch\<close> class is missing from the sources. A branch
  is the fork height and the ordered candidate blocks, oldest first; its hash is the
  previous-block hash of the oldest block ("blockchain parent of the oldest branch
  block"), \<open>top_height = fork_height + len(blocks)\<close>, \<open>work\<close> is the 256-bit sum of
  \<open>proof(bits)\<close>, \<open>top()\<close> is a null pointer on an empty branch.\<close>

record branch =
  branch_height :: nat
  branch_blocks :: "block list"

definition branch_empty :: "branch \<Rightarrow> bool" where
  "branch_empty br = (branch_blocks br = [])"

definition branch_hash :: "branch \<Rightarrow> hash_digest" where
  "branch_hash br =
     (case branch_blocks br of
        [] \<Rightarrow> null_hash
      | oldest # _ \<Rightarrow> previous_block_hash (block_header oldest))"

definition branch_set_height :: "nat \<Rightarrow> branch \<Rightarrow> branch" where
  "branch_set_height height br = br\<lparr>branch_height := height\<rparr>"

definition branch_top :: "branch \<Rightarrow> block option" where
  "branch_top br = (if branch_blocks br = [] then None else Some (last (branch_blocks br)))"

definition branch_top_height :: "branch \<Rightarrow> nat" where
  "branch_top_height br = branch_height br + length (branch_blocks br)"

definition branch_fork_point :: "branch \<Rightarrow> checkpoint" where
  "branch_fork_point br =
     \<lparr>checkpoint_hash = branch_hash br, checkpoint_height = branch_height br\<rparr>"

definition branch_work :: "(uint32_t \<Rightarrow> uint256_t) \<Rightarrow> branch \<Rightarrow> uint256_t" where
  "branch_work block_proof br =
     sum_list (map (\<lambda>blk. block_proof (header_bits (block_header blk))) (branch_blocks br))"

text \<open>The collaborators whose code is not part of the sources are parameters of the
  organizer: the per-block work function, the three validator phases (each delivers a
  code), the block pool over its own state type, \<open>database_.reorganize\<close> (code, popped
  blocks, new table), the chain state populator and the steady clock.\<close>

record 'p collaborators =
  chain_block_proof :: "uint32_t \<Rightarrow> uint256_t"
  validator_check :: "block \<Rightarrow> code"
  validator_accept :: "block_chain \<Rightarrow> branch \<Rightarrow> code"
  validator_connect :: "block_chain \<Rightarrow> branch \<Rightarrow> code"
  pool_get_path :: "'p \<Rightarrow> block \<Rightarrow> branch"
  pool_add :: "block \<Rightarrow> 'p \<Rightarrow> 'p"
  pool_add_list :: "block list \<Rightarrow> 'p \<Rightarrow> 'p"
  pool_remove :: "block list \<Rightarrow> 'p \<Rightarrow> 'p"
  pool_prune :: "nat \<Rightarrow> 'p \<Rightarrow> 'p"
  database_reorganize ::
    "checkpoint \<Rightarrow> block list \<Rightarrow> block list \<Rightarrow> block_database
       \<Rightarrow> code \<times> block list \<times> block_database"
  chain_state_populate :: "chain_state option \<Rightarrow> chain_state option"
  steady_clock_now :: nat

section \<open>Fast chain: the remaining readers and the writer\<close>

definition get_block_exists :: "block_chain \<Rightarrow> hash_digest \<Rightarrow> bool" where
  "get_block_exists chain hash = (blocks_by_hash (database chain) hash \<noteq> None)"

definition get_height :: "block_chain \<Rightarrow> hash_digest \<Rightarrow> nat option" where
  "get_height chain hash =
     (case blocks_by_hash (database chain) hash of
        None \<Rightarrow> None
      | Some result \<Rightarrow> Some (result_height result))"

text \<open>\<open>set_chain_state\<close>: \<open>pool_state_ = populate(previous)\<close>; the code it returns is
  dropped by its only caller.\<close>

definition set_chain_state :: "'p collaborators \<Rightarrow> chain_state option \<Rightarrow> block_chain \<Rightarrow> block_chain"
  where
  "set_chain_state env previous chain = chain\<lparr>pool_state := chain_state_populate env previous\<rparr>"

text \<open>\<open>block_chain::handle_reorganize\<close>: on success the top block's
  \<open>validation.state\<close> becomes the pool state; the code goes to the handler.\<close>

definition handle_reorganize ::
  "'p collaborators \<Rightarrow> code \<Rightarrow> block \<Rightarrow> block_chain \<Rightarrow> code \<times> block_chain" where
  "handle_reorganize env ec top_block chain =
     (if ec = success then (ec, set_chain_state env (validation_state top_block) chain)
      else (ec, chain))"

text \<open>\<open>block_chain::reorganize\<close>: an empty incoming list is answered with
  \<open>operation_failed\<close> before the store is called; otherwise the store swaps, fills
  \<open>outgoing_blocks\<close>, and the completion runs with \<open>incoming_blocks->back()\<close>.
  The result is the code for the handler, the outgoing list and the chain.\<close>

definition reorganize ::
  "'p collaborators \<Rightarrow> checkpoint \<Rightarrow> block list \<Rightarrow> block list \<Rightarrow> block_chain
     \<Rightarrow> code \<times> block list \<times> block_chain" where
  "reorganize env fork_point incoming_blocks outgoing_blocks chain =
     (if incoming_blocks = [] then (operation_failed, outgoing_blocks, chain)
      else
        case database_reorganize env fork_point incoming_blocks outgoing_blocks (database chain) of
          (ec, outgoing, db) \<Rightarrow>
            (case handle_reorganize env ec (last incoming_blocks) (chain\<lparr>database := db\<rparr>) of
               (ec', chain') \<Rightarrow> (ec', outgoing, chain')))"

text \<open>Modelled from the spec: the store's \<open>pop_above\<close>, \<open>push\<close> and \<open>reorganize\<close> are
  missing from the sources. \<open>pop_above(fork_hash)\<close> removes all blocks strictly above
  the fork hash and returns them in top-first order; \<open>push\<close> appends a block at a
  height, which becomes the top; \<open>reorganize\<close> is the pop-then-push swap that commits
  \<open>incoming\<close> in order starting at \<open>fork_point.height + 1\<close> and hands the popped
  blocks to \<open>outgoing\<close>. A fork hash that is not in the store, or an unreadable row
  above it, fails the swap and leaves the store as it was.\<close>

definition block_of_result :: "block_result \<Rightarrow> block" where
  "block_of_result result =
     \<lparr>block_header = result_header result, validation_error = success,
      validation_start_notify = 0, validation_state = None\<rparr>"

definition result_of_block :: "block \<Rightarrow> nat \<Rightarrow> block_result" where
  "result_of_block blk height = \<lparr>result_height = height, result_header = block_header blk\<rparr>"

definition store_truncate :: "nat \<Rightarrow> block_database \<Rightarrow> block_database" where
  "store_truncate fork_height db =
     db\<lparr>blocks_top := Some fork_height,
        blocks_by_height := (\<lambda>height. if fork_height < height then None
                                        else blocks_by_height db height),
        blocks_by_hash := (\<lambda>hash. case blocks_by_hash db hash of
                                     None \<Rightarrow> None
                                   | Some result \<Rightarrow>
                                       if fork_height < result_height result then None
                                       else Some result)\<rparr>"

definition store_pop_above ::
  "hash_digest \<Rightarrow> block_database \<Rightarrow> (block list \<times> block_database) option" where
  "store_pop_above fork_hash db =
     (case blocks_by_hash db fork_hash of
        None \<Rightarrow> None
      | Some fork \<Rightarrow>
          (case blocks_top db of
             None \<Rightarrow> None
           | Some top_height \<Rightarrow>
               (case those (map (blocks_by_height db)
                                (rev [Suc (result_height fork) ..< Suc top_height])) of
                  None \<Rightarrow> None
                | Some rows \<Rightarrow>
                    Some (map block_of_result rows, store_truncate (result_height fork) db))))"

definition store_push :: "block \<Rightarrow> nat \<Rightarrow> block_database \<Rightarrow> block_database" where
  "store_push blk height db =
     db\<lparr>blocks_top := Some height,
        blocks_by_height := (blocks_by_height db)(height \<mapsto> result_of_block blk height),
        blocks_by_hash := (blocks_by_hash db)(block_hash blk \<mapsto> result_of_block blk height)\<rparr>"

fun store_push_all :: "block list \<Rightarrow> nat \<Rightarrow> block_database \<Rightarrow> block_database" where
  "store_push_all [] height db = db"
| "store_push_all (blk # blocks) height db =
     store_push_all blocks (Suc height) (store_push blk height db)"

definition store_reorganize ::
  "checkpoint \<Rightarrow> block list \<Rightarrow> block list \<Rightarrow> block_database
     \<Rightarrow> code \<times> block list \<times> block_database" where
  "store_reorganize fork_point incoming outgoing db =
     (case store_pop_above (checkpoint_hash fork_point) db of
        None \<Rightarrow> (operation_failed, outgoing, db)
      | Some (popped, db') \<Rightarrow>
          (success, outgoing @ popped,
           store_push_all incoming (Suc (checkpoint_height fork_point)) db'))"

section \<open>The block organizer\<close>

text \<open>The organizer's own state: its \<open>stopped_\<close> flag, the block pool and the chain
  it writes to. What it asks of the validator, the pool, the subscriber and the store
  in one call is returned as the list of these calls, in program order.\<close>

record 'p block_organizer =
  stopped :: bool
  block_pool :: 'p
  fast_chain :: block_chain

datatype call =
    ValidatorStart
  | ValidatorStop
  | ValidatorCheck block
  | ValidatorAccept branch
  | ValidatorConnect branch
  | SubscriberStart
  | SubscriberStop
  | SubscriberInvoke code nat "block list" "block list"
  | SubscriberRelay code nat "block list" "block list"
  | PoolAdd block
  | PoolAddList "block list"
  | PoolRemove "block list"
  | PoolPrune nat
  | ChainReorganize checkpoint "block list"
  | LogFatal code

definition start :: "'p block_organizer \<Rightarrow> bool \<times> call list \<times> 'p block_organizer" where
  "start organizer = (True, [SubscriberStart, ValidatorStart], organizer\<lparr>stopped := False\<rparr>)"

definition stop :: "'p block_organizer \<Rightarrow> bool \<times> call list \<times> 'p block_organizer" where
  "stop organizer =
     (True, [ValidatorStop, SubscriberStop, SubscriberInvoke service_stopped 0 [] []],
      organizer\<lparr>stopped := True\<rparr>)"

text \<open>\<open>set_branch_height\<close>: the height of the branch's parent hash in the chain, or
  false.\<close>

definition set_branch_height :: "'p block_organizer \<Rightarrow> branch \<Rightarrow> branch option" where
  "set_branch_height organizer br =
     (case get_height (fast_chain organizer) (branch_hash br) of
        None \<Rightarrow> None
      | Some height \<Rightarrow> Some (branch_set_height height br))"

text \<open>\<open>handle_reorganized\<close>: a failed swap is logged as fatal and reported; after a
  committed swap the pool drops the branch blocks, prunes at the new top height and
  takes the outgoing blocks, the subscribers are relayed the reorganization, and the
  handler gets \<open>success\<close>.\<close>

definition handle_reorganized ::
  "'p collaborators \<Rightarrow> code \<Rightarrow> branch \<Rightarrow> block list \<Rightarrow> 'p block_organizer
     \<Rightarrow> code \<times> call list \<times> 'p block_organizer" where
  "handle_reorganized env ec br outgoing organizer =
     (if ec \<noteq> success then (ec, [LogFatal ec], organizer)
      else
        (success,
         [PoolRemove (branch_blocks br), PoolPrune (branch_top_height br), PoolAddList outgoing,
          SubscriberRelay success (branch_height br) (branch_blocks br) outgoing],
         organizer\<lparr>block_pool :=
           pool_add_list env outgoing
             (pool_prune env (branch_top_height br)
               (pool_remove env (branch_blocks br) (block_pool organizer)))\<rparr>))"

text \<open>The annotation \<open>handle_connect\<close> writes on the top block, which the branch
  shares: \<open>header().validation.height\<close>, \<open>validation.error\<close> and
  \<open>validation.start_notify\<close>.\<close>

definition mark_valid :: "nat \<Rightarrow> nat \<Rightarrow> block \<Rightarrow> block" where
  "mark_valid height now blk =
     blk\<lparr>block_header := (block_header blk)\<lparr>header_validation_height := height\<rparr>,
         validation_error := success,
         validation_start_notify := now\<rparr>"

definition branch_replace_top :: "block \<Rightarrow> branch \<Rightarrow> branch" where
  "branch_replace_top blk br = br\<lparr>branch_blocks := butlast (branch_blocks br) @ [blk]\<rparr>"

text \<open>\<open>handle_connect\<close>. A branch without blocks has a null \<open>top()\<close>, which the
  function dereferences.\<close>

definition handle_connect ::
  "'p collaborators \<Rightarrow> code \<Rightarrow> branch \<Rightarrow> 'p block_organizer
     \<Rightarrow> exception + (code \<times> call list \<times> 'p block_organizer)" where
  "handle_connect env ec br organizer =
     (if stopped organizer then Inr (service_stopped, [], organizer)
      else if ec \<noteq> success then Inr (ec, [], organizer)
      else
        case branch_top br of
          None \<Rightarrow> Inl null_dereference
        | Some top0 \<Rightarrow>
            let top_block = mark_valid (branch_top_height br) (steady_clock_now env) top0;
                br' = branch_replace_top top_block br;
                first_height = branch_height br' + 1;
                maximum = branch_work (chain_block_proof env) br'
            in case get_branch_work (chain_block_proof env) (database (fast_chain organizer))
                      maximum first_height of
                 None \<Rightarrow> Inr (operation_failed, [], organizer)
               | Some threshold \<Rightarrow>
                   if branch_work (chain_block_proof env) br' \<le> threshold then
                     Inr (insufficient_work, [PoolAdd top_block],
                          organizer\<lparr>block_pool := pool_add env top_block (block_pool organizer)\<rparr>)
                   else
                     (case reorganize env (branch_fork_point br') (branch_blocks br') []
                             (fast_chain organizer) of
                        (ec', out_blocks, chain') \<Rightarrow>
                          (case handle_reorganized env ec' br' out_blocks
                                  (organizer\<lparr>fast_chain := chain'\<rparr>) of
                             (result, calls, organizer') \<Rightarrow>
                               Inr (result,
                                    ChainReorganize (branch_fork_point br') (branch_blocks br')
                                      # calls,
                                    organizer'))))"

text \<open>While the organizer waits for a validator phase, \<open>stop\<close> may run on another
  thread; the schedule says after which phases it did.\<close>

record schedule =
  stop_during_accept :: bool
  stop_during_connect :: bool

definition interleave_stop ::
  "bool \<Rightarrow> 'p block_organizer \<Rightarrow> call list \<times> 'p block_organizer" where
  "interleave_stop stops organizer =
     (if stops then (case stop organizer of (_, calls, organizer') \<Rightarrow> (calls, organizer'))
      else ([], organizer))"

text \<open>\<open>handle_accept\<close>, with the connect phase it starts and the \<open>handle_connect\<close>
  that phase completes with.\<close>

definition handle_accept ::
  "'p collaborators \<Rightarrow> schedule \<Rightarrow> code \<Rightarrow> branch \<Rightarrow> 'p block_organizer
     \<Rightarrow> exception + (code \<times> call list \<times> 'p block_organizer)" where
  "handle_accept env sched ec br organizer =
     (if stopped organizer then Inr (service_stopped, [], organizer)
      else if ec \<noteq> success then Inr (ec, [], organizer)
      else
        let ec' = validator_connect env (fast_chain organizer) br
        in case interleave_stop (stop_during_connect sched) organizer of
             (stop_calls, organizer') \<Rightarrow>
               (case handle_connect env ec' br organizer' of
                  Inl e \<Rightarrow> Inl e
                | Inr (result, calls, organizer'') \<Rightarrow>
                    Inr (result, ValidatorConnect br # stop_calls @ calls, organizer'')))"

text \<open>\<open>organize\<close>: the stop check, the stateless check, the path through the pool, the
  duplicate test, the fork height, then the accept phase and its completion. The
  result is the code the caller's handler receives.\<close>

definition organize ::
  "'p collaborators \<Rightarrow> schedule \<Rightarrow> 'p block_organizer \<Rightarrow> block
     \<Rightarrow> exception + (code \<times> call list \<times> 'p block_organizer)" where
  "organize env sched organizer blk =
     (if stopped organizer then Inr (service_stopped, [], organizer)
      else
        let ec = validator_check env blk
        in if ec \<noteq> success then Inr (ec, [ValidatorCheck blk], organizer)
           else
             let br = pool_get_path env (block_pool organizer) blk
             in if branch_empty br \<or> get_block_exists (fast_chain organizer) (block_hash blk)
                then Inr (duplicate_block, [ValidatorCheck blk], organizer)
                else
                  case set_branch_height organizer br of
                    None \<Rightarrow> Inr (orphan_block, [ValidatorCheck blk], organizer)
                  | Some br' \<Rightarrow>
                      let ec' = validator_accept env (fast_chain organizer) br'
                      in case interleave_stop (stop_during_accept sched) organizer of
                           (stop_calls, organizer') \<Rightarrow>
                             (case handle_accept env sched ec' br' organizer' of
                                Inl e \<Rightarrow> Inl e
                              | Inr (result, calls, organizer'') \<Rightarrow>
                                  Inr (result,
                                       ValidatorCheck blk # ValidatorAccept br' # stop_calls @ calls,
                                       organizer'')))"

text \<open>A run of \<open>organize\<close> calls on the same organizer, each with its own schedule; the
  codes are collected in call order.\<close>

fun organize_all ::
  "'p collaborators \<Rightarrow> 'p block_organizer \<Rightarrow> (schedule \<times> block) list
     \<Rightarrow> exception + (code list \<times> 'p block_organizer)" where
  "organize_all env organizer [] = Inr ([], organizer)"
| "organize_all env organizer ((sched, blk) # rest) =
     (case organize env sched organizer blk of
        Inl e \<Rightarrow> Inl e
      | Inr (result, calls, organizer') \<Rightarrow>
          (case organize_all env organizer' rest of
             Inl e \<Rightarrow> Inl e
           | Inr (results, organizer'') \<Rightarrow> Inr (result # results, organizer'')))"

text \<open>Modelled from the spec: the reorganize subscriber is missing from the sources. It
  fans an event out to the live subscribers, in order; a subscriber that registers
  after \<open>stop\<close> receives the single terminal event and is released, and so are the
  subscribers notified once the subscriber has stopped.\<close>

type_synonym notification = "code \<times> nat \<times> block list \<times> block list"

record subscriber =
  subscriber_stopped :: bool
  subscriptions :: "nat list"
  deliveries :: "(nat \<times> notification) list"

definition subscriber_notify :: "notification \<Rightarrow> subscriber \<Rightarrow> subscriber" where
  "subscriber_notify event sub =
     sub\<lparr>deliveries := deliveries sub @ map (\<lambda>handler. (handler, event)) (subscriptions sub),
         subscriptions := (if subscriber_stopped sub then [] else subscriptions sub)\<rparr>"

fun subscriber_apply :: "call \<Rightarrow> subscriber \<Rightarrow> subscriber" where
  "subscriber_apply SubscriberStart sub = sub\<lparr>subscriber_stopped := False\<rparr>"
| "subscriber_apply SubscriberStop sub = sub\<lparr>subscriber_stopped := True\<rparr>"
| "subscriber_apply (SubscriberInvoke ec height incoming outgoing) sub =
     subscriber_notify (ec, height, incoming, outgoing) sub"
| "subscriber_apply (SubscriberRelay ec height incoming outgoing) sub =
     subscriber_notify (ec, height, incoming, outgoing) sub"
| "subscriber_apply _ sub = sub"

fun subscriber_run :: "call list \<Rightarrow> subscriber \<Rightarrow> subscriber" where
  "subscriber_run [] sub = sub"
| "subscriber_run (c # calls) sub = subscriber_run calls (subscriber_apply c sub)"

section \<open>Safe chain: sequence-locked reads\<close>

text \<open>One pass of the \<open>read_serial\<close> loop as the store presents it: the handle of
  \<open>begin_read\<close>, the answer of \<open>is_write_locked\<close> for it, what the reads of this pass
  return (the table as seen, possibly in the middle of a write), and the answer of
  \<open>is_read_valid\<close> when the reads are done. The store's own code is outside the
  sources; a list of passes is the schedule of one query.\<close>

record 'v attempt =
  attempt_sequence :: nat
  attempt_write_locked :: bool
  attempt_view :: 'v
  attempt_read_valid :: bool

datatype 'a serial_event = BeginRead nat | Sleep nat | Handler 'a

text \<open>\<open>spin_lock_sleep_(asio::milliseconds(1))\<close>.\<close>

definition spin_lock_sleep :: nat where
  "spin_lock_sleep = 1"

text \<open>\<open>finish_read\<close>: false without calling the handler when the sequence is no
  longer valid, else the handler is called with the arguments.\<close>

definition finish_read :: "'v attempt \<Rightarrow> 'a \<Rightarrow> bool \<times> 'a list" where
  "finish_read att args = (if \<not> attempt_read_valid att then (False, []) else (True, [args]))"

text \<open>\<open>read_serial\<close>: \<open>while (true)\<close> over the passes. The reader is a closure; what
  it captures by reference or shared pointer and may edit is the state \<open>'m\<close> carried
  from pass to pass. The loop has no bound of its own: if the schedule ends before a
  pass succeeds the query has not returned, which is \<open>None\<close>.\<close>

fun read_serial ::
  "('v attempt \<Rightarrow> 'm \<Rightarrow> bool \<times> 'a list \<times> 'm) \<Rightarrow> 'v attempt list \<Rightarrow> 'm
     \<Rightarrow> ('a serial_event list \<times> 'm) option" where
  "read_serial reader [] captured = None"
| "read_serial reader (att # rest) captured =
     (if \<not> attempt_write_locked att then
        (case reader att captured of
           (True, handled, captured') \<Rightarrow>
             Some (BeginRead (attempt_sequence att) # map Handler handled, captured')
         | (False, handled, captured') \<Rightarrow>
             (case read_serial reader rest captured' of
                None \<Rightarrow> None
              | Some (events, captured'') \<Rightarrow>
                  Some (BeginRead (attempt_sequence att) # map Handler handled
                          @ Sleep spin_lock_sleep # events, captured'')))
      else
        (case read_serial reader rest captured of
           None \<Rightarrow> None
         | Some (events, captured') \<Rightarrow>
             Some (BeginRead (attempt_sequence att) # Sleep spin_lock_sleep # events, captured')))"

text \<open>The shape of the \<open>fetch_*\<close> readers: they build their result from the reads of
  the pass and return through \<open>finish_read\<close>, editing nothing they captured.\<close>

definition fetch_reader ::
  "('v \<Rightarrow> 'a) \<Rightarrow> 'v attempt \<Rightarrow> 'm \<Rightarrow> bool \<times> 'a list \<times> 'm" where
  "fetch_reader query att captured =
     (case finish_read att (query (attempt_view att)) of
        (finished, handled) \<Rightarrow> (finished, handled, captured))"

text \<open>\<open>fetch_last_height\<close>.\<close>

definition last_height_query :: "block_database \<Rightarrow> code \<times> nat" where
  "last_height_query db =
     (case blocks_top db of
        Some last_height \<Rightarrow> (success, last_height)
      | None \<Rightarrow> (not_found, 0))"

definition fetch_last_height ::
  "block_chain \<Rightarrow> block_database attempt list \<Rightarrow> ((code \<times> nat) serial_event list \<times> unit) option"
  where
  "fetch_last_height chain sched =
     (if chain_stopped chain then Some ([Handler (service_stopped, 0)], ())
      else read_serial (fetch_reader last_height_query) sched ())"

text \<open>\<open>filter_blocks\<close>: the reader first lets the block pool filter the message,
  then erases from the message every inventory that \<open>is_block_type()\<close> and whose hash
  the table has, and only then confirms the sequence. The message is the caller's,
  shared with the closure. The pool's filter and \<open>is_block_type\<close> are not part of
  the sources and are parameters.\<close>

definition filter_blocks_reader ::
  "(inventory_vector \<Rightarrow> bool) \<Rightarrow> (inventory_vector list \<Rightarrow> inventory_vector list)
     \<Rightarrow> block_database attempt \<Rightarrow> inventory_vector list
     \<Rightarrow> bool \<times> code list \<times> inventory_vector list" where
  "filter_blocks_reader is_block_type pool_filter att message =
     (let inventories =
            filter (\<lambda>item. \<not> (is_block_type item \<and>
                               blocks_by_hash (attempt_view att) (inventory_hash item) \<noteq> None))
              (pool_filter message)
      in case finish_read att success of
           (finished, handled) \<Rightarrow> (finished, handled, inventories))"

definition filter_blocks ::
  "block_chain \<Rightarrow> (inventory_vector \<Rightarrow> bool)
     \<Rightarrow> (inventory_vector list \<Rightarrow> inventory_vector list)
     \<Rightarrow> block_database attempt list \<Rightarrow> inventory_vector list
     \<Rightarrow> (code serial_event list \<times> inventory_vector list) option" where
  "filter_blocks chain is_block_type pool_filter sched message =
     (if chain_stopped chain then Some ([Handler service_stopped], message)
      else read_serial (filter_blocks_reader is_block_type pool_filter) sched message)"

section \<open>A small store, pool and environment for concrete runs\<close>

text \<open>Work equal to the compact bits, so that small numbers can be read off.\<close>

definition sample_proof :: "uint32_t \<Rightarrow> uint256_t" where
  "sample_proof bits_value = ucast bits_value"

definition sample_block :: "hash_digest \<Rightarrow> hash_digest \<Rightarrow> uint32_t \<Rightarrow> block" where
  "sample_block hash parent bits_value =
     \<lparr>block_header = \<lparr>header_hash = hash, previous_block_hash = parent,
                       header_bits = bits_value, header_validation_height = 0\<rparr>,
      validation_error = success, validation_start_notify = 0, validation_state = None\<rparr>"

definition empty_store :: block_database where
  "empty_store =
     \<lparr>blocks_top = None, blocks_by_height = (\<lambda>height. None), blocks_by_hash = (\<lambda>hash. None)\<rparr>"

text \<open>Three confirmed blocks at heights 0, 1 and 2 with hashes 1, 2 and 3 and work 5, 5
  and 3.\<close>

definition sample_store :: block_database where
  "sample_store =
     store_push_all [sample_block 1 0 5, sample_block 2 1 5, sample_block 3 2 3] 0 empty_store"

definition sample_chain :: block_chain where
  "sample_chain = \<lparr>database = sample_store, chain_stopped = False, pool_state = None\<rparr>"

text \<open>Modelled from the spec: the block pool is missing from the sources. Here it is a
  list of blocks: \<open>add\<close> is a no-op for a hash already present, \<open>remove\<close> drops a set
  of hashes, \<open>prune\<close> evicts the entries whose recorded height is at most
  \<open>new_tip_height - reorganization_limit\<close>, and \<open>get_path\<close> walks parent-hash links
  through the pool from the block, giving the empty branch for a block the pool
  already holds.\<close>

definition list_pool_add :: "block \<Rightarrow> block list \<Rightarrow> block list" where
  "list_pool_add blk pool =
     (if block_hash blk \<in> set (map block_hash pool) then pool else pool @ [blk])"

fun list_pool_add_list :: "block list \<Rightarrow> block list \<Rightarrow> block list" where
  "list_pool_add_list [] pool = pool"
| "list_pool_add_list (blk # blocks) pool = list_pool_add_list blocks (list_pool_add blk pool)"

definition list_pool_remove :: "block list \<Rightarrow> block list \<Rightarrow> block list" where
  "list_pool_remove blocks pool =
     filter (\<lambda>entry. block_hash entry \<notin> set (map block_hash blocks)) pool"

definition list_pool_prune :: "nat \<Rightarrow> nat \<Rightarrow> block list \<Rightarrow> block list" where
  "list_pool_prune reorganization_limit top_height pool =
     filter (\<lambda>entry. \<not> header_validation_height (block_header entry)
                          \<le> top_height - reorganization_limit) pool"

fun list_pool_walk :: "nat \<Rightarrow> block list \<Rightarrow> block \<Rightarrow> block list \<Rightarrow> block list" where
  "list_pool_walk 0 pool blk path = blk # path"
| "list_pool_walk (Suc fuel) pool blk path =
     (case find (\<lambda>entry. block_hash entry = previous_block_hash (block_header blk)) pool of
        None \<Rightarrow> blk # path
      | Some parent \<Rightarrow> list_pool_walk fuel pool parent (blk # path))"

definition list_pool_get_path :: "block list \<Rightarrow> block \<Rightarrow> branch" where
  "list_pool_get_path pool blk =
     \<lparr>branch_height = 0,
      branch_blocks = (if block_hash blk \<in> set (map block_hash pool) then []
                       else list_pool_walk (length pool) pool blk [])\<rparr>"

text \<open>An environment in which every validator phase passes, the pool is the list
  pool with limit 100, the store swaps as modelled above, and the clock reads 7.\<close>

definition sample_env :: "block list collaborators" where
  "sample_env =
     \<lparr>chain_block_proof = sample_proof,
      validator_check = (\<lambda>blk. success),
      validator_accept = (\<lambda>chain br. success),
      validator_connect = (\<lambda>chain br. success),
      pool_get_path = list_pool_get_path,
      pool_add = list_pool_add,
      pool_add_list = list_pool_add_list,
      pool_remove = list_pool_remove,
      pool_prune = list_pool_prune 100,
      database_reorganize = store_reorganize,
      chain_state_populate = (\<lambda>previous. previous),
      steady_clock_now = 7\<rparr>"

definition sample_organizer :: "block list block_organizer" where
  "sample_organizer = \<lparr>stopped = False, block_pool = [], fast_chain = sample_chain\<rparr>"

definition no_stop :: schedule where
  "no_stop = \<lparr>stop_during_accept = False, stop_during_connect = False\<rparr>"

text \<open>Candidates for the sample chain: two siblings of the top block (parent hash 2,
  fork height 1) with work 3 and 9, a block whose parent is unknown, and the fork
  point of the siblings.\<close>

definition light_sibling :: block where
  "light_sibling = sample_block 4 2 3"

definition heavy_sibling :: block where
  "heavy_sibling = sample_block 5 2 9"

definition parentless_block :: block where
  "parentless_block = sample_block 6 9 5"

definition sample_fork_point :: checkpoint where
  "sample_fork_point = \<lparr>checkpoint_hash = 2, checkpoint_height = 1\<rparr>"

text \<open>The branches of the two siblings once the fork height 1 is set.\<close>

definition light_branch :: branch where
  "light_branch = \<lparr>branch_height = 1, branch_blocks = [light_sibling]\<rparr>"

definition heavy_branch :: branch where
  "heavy_branch = \<lparr>branch_height = 1, branch_blocks = [heavy_sibling]\<rparr>"

text \<open>The sample store after the heavy sibling has replaced the old top block, and
  three passes of a query that runs across that swap: one that starts before the
  swap and is invalidated by it, one that finds the write lock held, and one after
  the swap. The inventory asks for the old top block (hash 3) and the new one
  (hash 5), both of block type.\<close>

definition swapped_store :: block_database where
  "swapped_store = snd (snd (store_reorganize sample_fork_point [heavy_sibling] [] sample_store))"

definition pass_before_swap :: "block_database attempt" where
  "pass_before_swap =
     \<lparr>attempt_sequence = 0, attempt_write_locked = False, attempt_view = sample_store,
      attempt_read_valid = False\<rparr>"

definition pass_during_swap :: "block_database attempt" where
  "pass_during_swap =
     \<lparr>attempt_sequence = 1, attempt_write_locked = True, attempt_view = sample_store,
      attempt_read_valid = False\<rparr>"

definition pass_after_swap :: "block_database attempt" where
  "pass_after_swap =
     \<lparr>attempt_sequence = 2, attempt_write_locked = False, attempt_view = swapped_store,
      attempt_read_valid = True\<rparr>"

definition block_inventory :: "inventory_vector \<Rightarrow> bool" where
  "block_inventory item = (inventory_type item = inv_block)"

definition sample_inventory :: "inventory_vector list" where
  "sample_inventory =
     [\<lparr>inventory_type = inv_block, inventory_hash = 3\<rparr>,
      \<lparr>inventory_type = inv_block, inventory_hash = 5\<rparr>]"

section \<open>Readings of the specification to compare with\<close>

text \<open>The walk as the specification words it: accumulate over the confirmed heights
  from \<open>from_height\<close> to the tip and stop "as soon as the running sum exceeds
  maximum", that is, go on while the running sum is not greater than \<open>maximum\<close>.\<close>

function specified_branch_work_loop ::
  "(uint32_t \<Rightarrow> uint256_t) \<Rightarrow> block_database \<Rightarrow> nat \<Rightarrow> uint256_t \<Rightarrow> nat \<Rightarrow> uint256_t
     \<Rightarrow> uint256_t option" where
  "specified_branch_work_loop block_proof db top_height maximum height running =
     (if height \<le> top_height \<and> \<not> maximum < running then
        (case blocks_by_height db height of
           None \<Rightarrow> None
         | Some result \<Rightarrow>
             specified_branch_work_loop block_proof db top_height maximum (Suc height)
               (running + block_proof (result_bits result)))
      else Some running)"
  by pat_completeness auto
termination
  by (relation "measure (\<lambda>(block_proof, db, top_height, maximum, height, running).
        Suc top_height - height)") auto

declare specified_branch_work_loop.simps [simp del]

definition specified_branch_work ::
  "(uint32_t \<Rightarrow> uint256_t) \<Rightarrow> block_database \<Rightarrow> uint256_t \<Rightarrow> nat \<Rightarrow> uint256_t option" where
  "specified_branch_work block_proof db maximum from_height =
     (case blocks_top db of
        None \<Rightarrow> None
      | Some top_height \<Rightarrow> specified_branch_work_loop block_proof db top_height maximum from_height 0)"

text \<open>The sample store with the row at height 1 unreadable.\<close>

definition gap_store :: block_database where
  "gap_store = sample_store\<lparr>blocks_by_height := (blocks_by_height sample_store)(1 := None)\<rparr>"

section \<open>Unfolding the loops\<close>

lemma branch_work_loop_step:
  "\<lbrakk>height \<le> top_height; out_work < maximum; blocks_by_height db height = Some result\<rbrakk>
   \<Longrightarrow> branch_work_loop P db top_height maximum height out_work =
       branch_work_loop P db top_height maximum (Suc height) (out_work + P (result_bits result))"
  by (subst branch_work_loop.simps) simp

lemma branch_work_loop_done:
  "\<not> (height \<le> top_height \<and> out_work < maximum)
   \<Longrightarrow> branch_work_loop P db top_height maximum height out_work = Some out_work"
  by (subst branch_work_loop.simps) auto

lemma branch_work_loop_missing:
  "\<lbrakk>height \<le> top_height; out_work < maximum; blocks_by_height db height = None\<rbrakk>
   \<Longrightarrow> branch_work_loop P db top_height maximum height out_work = None"
  by (subst branch_work_loop.simps) simp

lemma fork_difficulty_loop_step:
  "\<lbrakk>height \<le> top_height; blocks_by_height db height = Some result\<rbrakk>
   \<Longrightarrow> fork_difficulty_loop D db top_height height out =
       fork_difficulty_loop D db top_height (Suc height) (out + D (result_bits result))"
  by (subst fork_difficulty_loop.simps) simp

lemma fork_difficulty_loop_done:
  "\<not> height \<le> top_height \<Longrightarrow> fork_difficulty_loop D db top_height height out = Some out"
  by (subst fork_difficulty_loop.simps) simp

lemma specified_branch_work_loop_step:
  "\<lbrakk>height \<le> top_height; \<not> maximum < running; blocks_by_height db height = Some result\<rbrakk>
   \<Longrightarrow> specified_branch_work_loop P db top_height maximum height running =
       specified_branch_work_loop P db top_height maximum (Suc height)
         (running + P (result_bits result))"
  by (subst specified_branch_work_loop.simps) simp

lemma specified_branch_work_loop_done:
  "\<not> (height \<le> top_height \<and> \<not> maximum < running)
   \<Longrightarrow> specified_branch_work_loop P db top_height maximum height running = Some running"
  by (subst specified_branch_work_loop.simps) auto

section \<open>The sample store, evaluated\<close>

lemma sample_store_rows:
  "blocks_top sample_store = Some 2"
  "blocks_by_height sample_store 0 = Some (result_of_block (sample_block 1 0 5) 0)"
  "blocks_by_height sample_store (Suc 0) = Some (result_of_block (sample_block 2 1 5) 1)"
  "blocks_by_height sample_store 2 = Some (result_of_block (sample_block 3 2 3) 2)"
  "blocks_by_height sample_store (Suc (Suc 0)) = Some (result_of_block (sample_block 3 2 3) 2)"
  "3 \<le> k \<Longrightarrow> blocks_by_height sample_store k = None"
  by (simp_all add: sample_store_def store_push_def empty_store_def numeral_2_eq_2)

lemma sample_row_bits:
  "sample_proof (result_bits (result_of_block (sample_block h p b) k)) = ucast b"
  by (simp add: sample_proof_def result_bits_def result_of_block_def sample_block_def)



lemma sample_branch_work_5: "get_branch_work sample_proof sample_store 5 1 = Some 5"
  by (simp add: get_branch_work_def sample_store_rows sample_row_bits branch_work_loop_step
      branch_work_loop_done)

lemma sample_branch_work_9: "get_branch_work sample_proof sample_store 9 1 = Some 8"
  by (simp add: get_branch_work_def sample_store_rows sample_row_bits branch_work_loop_step
      branch_work_loop_done)

lemma sample_fork_difficulty: "get_fork_difficulty sample_proof sample_store 1 = Some 8"
  by (simp add: get_fork_difficulty_def sample_store_rows sample_row_bits
      fork_difficulty_loop_step fork_difficulty_loop_done)

lemma sample_specified_5: "specified_branch_work sample_proof sample_store 5 1 = Some 8"
  by (simp add: specified_branch_work_def sample_store_rows sample_row_bits
      specified_branch_work_loop_step specified_branch_work_loop_done)

lemma sample_work_from: "work_from sample_proof sample_store 0 1 1 = Some 5"
  by (simp add: sample_store_rows sample_row_bits)

lemma gap_store_rows:
  "blocks_top gap_store = Some 2"
  "blocks_by_height gap_store (Suc 0) = None"
  by (simp_all add: gap_store_def sample_store_rows)

lemma gap_branch_work: "get_branch_work sample_proof gap_store 9 1 = None"
  by (simp add: get_branch_work_def gap_store_rows branch_work_loop_missing)

lemma sample_row_work_sum: "(\<Sum>k = 1..2. row_work sample_proof sample_store k) = 8"
proof -
  have "{1..2::nat} = {1, 2}" by auto
  then show ?thesis
    by (simp add: row_work_def sample_store_rows sample_row_bits)
qed

lemma sample_rows_readable:
  "\<forall>k. 1 \<le> k \<and> k \<le> 2 \<longrightarrow> blocks_by_height sample_store k \<noteq> None"
proof (intro allI impI)
  fix k :: nat assume "1 \<le> k \<and> k \<le> 2"
  then have "k = Suc 0 \<or> k = 2" by auto
  then show "blocks_by_height sample_store k \<noteq> None"
    by (auto simp: sample_store_rows)
qed


section \<open>What the branch-work walk returns\<close>

lemma branch_work_loop_Some:
  "branch_work_loop P db t maximum h acc = Some w \<Longrightarrow>
   \<exists>n. (\<forall>i<n. h + i \<le> t) \<and> work_from P db acc h n = Some w \<and>
       (\<forall>m<n. \<exists>v. work_from P db acc h m = Some v \<and> v < maximum) \<and>
       (h + n \<le> t \<longrightarrow> maximum \<le> w)"
proof (induction P db t maximum h acc rule: branch_work_loop.induct)
  case (1 P db t maximum h acc)
  show ?case
  proof (cases "h \<le> t \<and> acc < maximum")
    case False
    with "1.prems" have "w = acc"
      by (simp add: branch_work_loop_done)
    with False have "(\<forall>i<0::nat. h + i \<le> t) \<and> work_from P db acc h 0 = Some w \<and>
       (\<forall>m<0::nat. \<exists>v. work_from P db acc h m = Some v \<and> v < maximum) \<and>
       (h + 0 \<le> t \<longrightarrow> maximum \<le> w)"
      by auto
    then show ?thesis by blast
  next
    case True
    with "1.prems" obtain r where r: "blocks_by_height db h = Some r"
      by (cases "blocks_by_height db h") (simp_all add: branch_work_loop_missing)
    with True "1.prems"
    have rec: "branch_work_loop P db t maximum (Suc h) (acc + P (result_bits r)) = Some w"
      by (simp add: branch_work_loop_step)
    from "1.IH" [OF True r rec] obtain n where n:
      "\<forall>i<n. Suc h + i \<le> t"
      "work_from P db (acc + P (result_bits r)) (Suc h) n = Some w"
      "\<forall>m<n. \<exists>v. work_from P db (acc + P (result_bits r)) (Suc h) m = Some v \<and> v < maximum"
      "Suc h + n \<le> t \<longrightarrow> maximum \<le> w"
      by blast
    have a: "\<forall>i<Suc n. h + i \<le> t"
    proof (intro allI impI)
      fix i assume "i < Suc n"
      then show "h + i \<le> t" using True n(1) by (cases i) auto
    qed
    have b: "work_from P db acc h (Suc n) = Some w" using r n(2) by simp
    have c: "\<forall>m<Suc n. \<exists>v. work_from P db acc h m = Some v \<and> v < maximum"
    proof (intro allI impI)
      fix m assume "m < Suc n"
      then show "\<exists>v. work_from P db acc h m = Some v \<and> v < maximum"
        using True r n(3) by (cases m) auto
    qed
    have d: "h + Suc n \<le> t \<longrightarrow> maximum \<le> w" using n(4) by simp
    from a b c d show ?thesis by blast
  qed
qed

lemma branch_work_loop_None:
  "branch_work_loop P db t maximum h acc = None \<Longrightarrow>
   \<exists>k. h \<le> k \<and> k \<le> t \<and> blocks_by_height db k = None"
proof (induction P db t maximum h acc rule: branch_work_loop.induct)
  case (1 P db t maximum h acc)
  from "1.prems" have guard: "h \<le> t \<and> acc < maximum"
    by (cases "h \<le> t \<and> acc < maximum") (simp_all add: branch_work_loop_done)
  show ?case
  proof (cases "blocks_by_height db h")
    case None
    with guard show ?thesis by blast
  next
    case (Some r)
    with "1.prems" guard
    have "branch_work_loop P db t maximum (Suc h) (acc + P (result_bits r)) = None"
      by (simp add: branch_work_loop_step)
    from "1.IH" [OF guard Some this] obtain k
      where "Suc h \<le> k" "k \<le> t" "blocks_by_height db k = None"
      by blast
    then show ?thesis by (meson Suc_leD)
  qed
qed

text \<open>
  C3 (as amended). \<open>get_branch_work(maximum, from_height)\<close> returns the running sum of
  \<open>proof(bits)\<close> over the confirmed heights from \<open>from_height\<close> on, for the rows it
  visits: every visited height is at most the tip, every running sum before the last
  row was below \<open>maximum\<close>, and if the walk ended before the tip then the sum has
  reached \<open>maximum\<close> (it is no longer below it: equal counts). It returns false only
  when the top height cannot be read or a row between \<open>from_height\<close> and the tip is
  missing.
\<close>

theorem get_branch_work_stops_at_maximum:
  "(\<forall>w. get_branch_work block_proof db maximum from_height = Some w \<longrightarrow>
      (\<exists>top_height n.
          blocks_top db = Some top_height \<and>
          (\<forall>i<n. from_height + i \<le> top_height) \<and>
          work_from block_proof db 0 from_height n = Some w \<and>
          (\<forall>m<n. \<exists>v. work_from block_proof db 0 from_height m = Some v \<and> v < maximum) \<and>
          (from_height + n \<le> top_height \<longrightarrow> maximum \<le> w))) \<and>
   (get_branch_work block_proof db maximum from_height = None \<longrightarrow>
      blocks_top db = None \<or>
      (\<exists>top_height k. blocks_top db = Some top_height \<and> from_height \<le> k \<and> k \<le> top_height \<and>
          blocks_by_height db k = None))"
proof (cases "blocks_top db")
  case None
  then show ?thesis by (simp add: get_branch_work_def)
next
  case (Some t)
  then have eq: "get_branch_work block_proof db maximum from_height =
                 branch_work_loop block_proof db t maximum from_height 0"
    by (simp add: get_branch_work_def)
  show ?thesis
  proof (intro conjI allI impI)
    fix w assume "get_branch_work block_proof db maximum from_height = Some w"
    with eq have "branch_work_loop block_proof db t maximum from_height 0 = Some w" by simp
    from branch_work_loop_Some [OF this] Some
    show "\<exists>top_height n.
          blocks_top db = Some top_height \<and>
          (\<forall>i<n. from_height + i \<le> top_height) \<and>
          work_from block_proof db 0 from_height n = Some w \<and>
          (\<forall>m<n. \<exists>v. work_from block_proof db 0 from_height m = Some v \<and> v < maximum) \<and>
          (from_height + n \<le> top_height \<longrightarrow> maximum \<le> w)"
      by blast
  next
    assume "get_branch_work block_proof db maximum from_height = None"
    with eq have "branch_work_loop block_proof db t maximum from_height 0 = None" by simp
    from branch_work_loop_None [OF this] Some
    show "blocks_top db = None \<or>
      (\<exists>top_height k. blocks_top db = Some top_height \<and> from_height \<le> k \<and> k \<le> top_height \<and>
          blocks_by_height db k = None)"
      by blast
  qed
qed

theorem get_branch_work_stops_at_maximum_witness:
  "get_branch_work sample_proof sample_store 5 1 = Some 5 \<and>
   blocks_top sample_store = Some 2 \<and>
   work_from sample_proof sample_store 0 1 1 = Some 5 \<and>
   (5 :: uint256_t) \<le> 5 \<and>
   get_branch_work sample_proof gap_store 9 1 = None \<and>
   blocks_by_height gap_store 1 = None"
proof -
  have le: "(5 :: uint256_t) \<le> 5" by simp
  have gap: "blocks_by_height gap_store 1 = None" by (simp add: gap_store_rows)
  from get_branch_work_stops_at_maximum [of sample_proof sample_store 5 1]
    get_branch_work_stops_at_maximum [of sample_proof gap_store 9 1]
  show ?thesis
    using sample_branch_work_5 sample_store_rows(1) sample_work_from le gap_branch_work gap
    by blast
qed

text \<open>
  C3 (as stated) fails: with rows of work 5 and 3 at heights 1 and 2 and
  \<open>maximum = 5\<close>, the running sum after height 1 is 5, which does not exceed the
  maximum, so the walk as specified goes on to the tip and returns 8; the code stops
  at 5.
\<close>

theorem get_branch_work_exceeds_counterexample:
  "get_branch_work sample_proof sample_store 5 1 = Some 5 \<and>
   specified_branch_work sample_proof sample_store 5 1 = Some 8"
  by (rule conjI [OF sample_branch_work_5 sample_specified_5])

section \<open>The bounded walk against the older unbounded one\<close>

lemma loops_agree:
  "\<lbrakk>\<forall>k. h \<le> k \<and> k \<le> t \<longrightarrow> blocks_by_height db k \<noteq> None;
    unat acc + (\<Sum>k = h..t. row_work P db k) < unat maximum;
    \<forall>b. D b = P b\<rbrakk>
   \<Longrightarrow> branch_work_loop P db t maximum h acc = fork_difficulty_loop D db t h acc \<and>
       (\<exists>w. fork_difficulty_loop D db t h acc = Some w \<and>
            unat w = unat acc + (\<Sum>k = h..t. row_work P db k))"
proof (induction D db t h acc rule: fork_difficulty_loop.induct)
  case (1 D db t h acc)
  show ?case
  proof (cases "h \<le> t")
    case False
    then show ?thesis
      by (simp add: branch_work_loop_done fork_difficulty_loop_done)
  next
    case True
    with "1.prems"(1) obtain r where r: "blocks_by_height db h = Some r"
      by (metis le_refl not_None_eq)
    have split: "(\<Sum>k = h..t. row_work P db k) =
                 row_work P db h + (\<Sum>k = Suc h..t. row_work P db k)"
      using True by (simp add: sum.atLeast_Suc_atMost)
    have rw: "row_work P db h = unat (P (result_bits r))"
      using r by (simp add: row_work_def)
    have below: "acc < maximum"
      using "1.prems"(2) by (simp add: word_less_nat_alt)
    have bound: "unat acc + unat (P (result_bits r)) < 2 ^ LENGTH(256)"
    proof -
      have "unat acc + unat (P (result_bits r)) < unat maximum"
        using "1.prems"(2) split rw by simp
      also have "unat maximum < 2 ^ LENGTH(256)" by (rule unsigned_less)
      finally show ?thesis .
    qed
    then have step: "unat (acc + P (result_bits r)) = unat acc + unat (P (result_bits r))"
      by (rule unat_add_lem [THEN iffD1])
    have DP: "D (result_bits r) = P (result_bits r)" using "1.prems"(3) by simp
    have p1: "\<forall>k. Suc h \<le> k \<and> k \<le> t \<longrightarrow> blocks_by_height db k \<noteq> None"
      using "1.prems"(1) by auto
    have p2: "unat (acc + D (result_bits r)) + (\<Sum>k = Suc h..t. row_work P db k) < unat maximum"
      using "1.prems"(2) split rw step DP by simp
    from "1.IH" [OF True r p1 p2 "1.prems"(3)]
    have ih: "branch_work_loop P db t maximum (Suc h) (acc + D (result_bits r)) =
              fork_difficulty_loop D db t (Suc h) (acc + D (result_bits r))"
      and ih2: "\<exists>w. fork_difficulty_loop D db t (Suc h) (acc + D (result_bits r)) = Some w \<and>
            unat w = unat (acc + D (result_bits r)) + (\<Sum>k = Suc h..t. row_work P db k)"
      by blast+
    have l: "branch_work_loop P db t maximum h acc =
             branch_work_loop P db t maximum (Suc h) (acc + P (result_bits r))"
      using True below r by (simp add: branch_work_loop_step)
    have f: "fork_difficulty_loop D db t h acc =
             fork_difficulty_loop D db t (Suc h) (acc + D (result_bits r))"
      using True r by (simp add: fork_difficulty_loop_step)
    show ?thesis
      using l f ih ih2 DP step split rw by (simp add: add.assoc)
  qed
qed

text \<open>
  C9. On a store whose top is readable and whose rows from \<open>from_height\<close> to the tip
  are all readable, if the sum of \<open>proof(bits)\<close> over that range (as a number, not
  wrapped) is strictly below \<open>maximum\<close>, then \<open>get_branch_work\<close> succeeds and returns
  the same 256-bit total as \<open>get_fork_difficulty\<close>, which is that sum. The older
  \<open>block::difficulty\<close> and the newer \<open>block::proof\<close> are taken to be the same per-block
  work function.
\<close>

theorem get_branch_work_refines_get_fork_difficulty:
  assumes "blocks_top db = Some top_height"
    and "\<forall>k. from_height \<le> k \<and> k \<le> top_height \<longrightarrow> blocks_by_height db k \<noteq> None"
    and "(\<Sum>k = from_height..top_height. row_work block_proof db k) < unat maximum"
    and "\<forall>b. block_difficulty b = block_proof b"
  shows "get_branch_work block_proof db maximum from_height =
           get_fork_difficulty block_difficulty db from_height \<and>
         (\<exists>total. get_branch_work block_proof db maximum from_height = Some total \<and>
            unat total = (\<Sum>k = from_height..top_height. row_work block_proof db k))"
proof -
  have "unat (0 :: uint256_t) + (\<Sum>k = from_height..top_height. row_work block_proof db k)
          < unat maximum"
    using assms(3) by simp
  from loops_agree [OF assms(2) this assms(4)] assms(1)
  show ?thesis
    by (simp add: get_branch_work_def get_fork_difficulty_def)
qed

theorem get_branch_work_refines_get_fork_difficulty_witness:
  "get_branch_work sample_proof sample_store 9 1 = Some 8 \<and>
   get_fork_difficulty sample_proof sample_store 1 = Some 8 \<and>
   (\<Sum>k = 1..2. row_work sample_proof sample_store k) = 8 \<and>
   (8 :: nat) < unat (9 :: uint256_t)"
proof -
  have top: "blocks_top sample_store = Some 2" by (simp add: sample_store_rows)
  have less: "(8 :: nat) < unat (9 :: uint256_t)" by simp
  have below: "(\<Sum>k = 1..2. row_work sample_proof sample_store k) < unat (9 :: uint256_t)"
    unfolding sample_row_work_sum by (rule less)
  have same: "\<forall>b. sample_proof b = sample_proof b" by simp
  from get_branch_work_refines_get_fork_difficulty [OF top sample_rows_readable below same]
  show ?thesis
    using sample_branch_work_9 sample_fork_difficulty sample_row_work_sum less by blast
qed

section \<open>The locator hash loops\<close>

lemma older_hash_loop_found:
  "\<lbrakk>index < stop_height; blocks_by_height db index = Some result\<rbrakk>
   \<Longrightarrow> older_hash_loop db stop_height index hashes =
       hashes @ [\<lparr>inventory_type = inv_block, inventory_hash = result_hash result\<rparr>]"
  by (subst older_hash_loop.simps) simp

lemma older_hash_loop_skip:
  "\<lbrakk>index < stop_height; blocks_by_height db index = None\<rbrakk>
   \<Longrightarrow> older_hash_loop db stop_height index hashes = older_hash_loop db stop_height (Suc index) hashes"
  by (subst older_hash_loop.simps) simp

lemma older_hash_loop_done:
  "\<not> index < stop_height \<Longrightarrow> older_hash_loop db stop_height index hashes = hashes"
  by (subst older_hash_loop.simps) simp

lemma newer_hash_loop_found:
  "\<lbrakk>index < stop_height; blocks_by_height db index = Some result\<rbrakk>
   \<Longrightarrow> newer_hash_loop db stop_height index hashes =
       newer_hash_loop db stop_height (Suc index)
         (hashes @ [\<lparr>inventory_type = inv_block, inventory_hash = result_hash result\<rparr>])"
  by (subst newer_hash_loop.simps) simp

lemma newer_hash_loop_break:
  "\<lbrakk>index < stop_height; blocks_by_height db index = None\<rbrakk>
   \<Longrightarrow> newer_hash_loop db stop_height index hashes = hashes"
  by (subst newer_hash_loop.simps) simp

lemma newer_hash_loop_done:
  "\<not> index < stop_height \<Longrightarrow> newer_hash_loop db stop_height index hashes = hashes"
  by (subst newer_hash_loop.simps) simp

text \<open>The older loop leaves after the first hash it pushes: it never adds more than
  one.\<close>

lemma older_hash_loop_at_most_one:
  "length (older_hash_loop db stop_height index hashes) \<le> Suc (length hashes)"
proof (induction db stop_height index hashes rule: older_hash_loop.induct)
  case (1 db stop_height index hashes)
  show ?case
  proof (cases "index < stop_height")
    case False
    then show ?thesis by (simp add: older_hash_loop_done)
  next
    case True
    show ?thesis
    proof (cases "blocks_by_height db index")
      case None
      with True "1.IH" show ?thesis by (simp add: older_hash_loop_skip)
    next
      case (Some result)
      with True show ?thesis by (simp add: older_hash_loop_found)
    qed
  qed
qed

lemma sample_row_hash:
  "result_hash (result_of_block (sample_block h p b) k) = h"
  by (simp add: result_hash_def result_of_block_def sample_block_def)

lemma sample_chain_fields:
  "database sample_chain = sample_store"
  "chain_stopped sample_chain = False"
  by (simp_all add: sample_chain_def)

lemma sample_older_loop:
  "older_hash_loop sample_store 501 (Suc 0) [] = [\<lparr>inventory_type = inv_block, inventory_hash = 2\<rparr>]"
  by (simp add: older_hash_loop_found sample_store_rows sample_row_hash)

lemma sample_newer_loop:
  "newer_hash_loop sample_store 501 (Suc 0) [] =
     [\<lparr>inventory_type = inv_block, inventory_hash = 2\<rparr>,
      \<lparr>inventory_type = inv_block, inventory_hash = 3\<rparr>]"
  by (simp add: newer_hash_loop_found newer_hash_loop_break sample_store_rows sample_row_hash)

text \<open>The newer query never reads the start it raised from the threshold: its result
  is the same for every threshold.\<close>

lemma newer_fetch_ignores_threshold:
  "newer_fetch_locator_block_hashes chain locator threshold limit =
   newer_fetch_locator_block_hashes chain locator null_hash limit"
  by (simp add: newer_fetch_locator_block_hashes_def Let_def split: sum.splits)

text \<open>
  C10 fails on the code. On the sample store (blocks with hashes 1, 2, 3 at heights
  0, 1, 2), with an empty locator, a null stop hash, a null threshold and limit 500,
  the older \<open>fetch_locator_block_hashes\<close> hands its handler the single hash 2: its
  loop leaves at the first block it finds. The newer one hands over the hashes 2
  and 3.
\<close>

theorem fetch_locator_block_hashes_diverge:
  "older_fetch_locator_block_hashes sample_chain \<lparr>start_hashes = [], stop_hash = null_hash\<rparr>
     null_hash 500 =
     Inr (success, Some [\<lparr>inventory_type = inv_block, inventory_hash = 2\<rparr>]) \<and>
   newer_fetch_locator_block_hashes sample_chain \<lparr>start_hashes = [], stop_hash = null_hash\<rparr>
     null_hash 500 =
     Inr (success, Some [\<lparr>inventory_type = inv_block, inventory_hash = 2\<rparr>,
                         \<lparr>inventory_type = inv_block, inventory_hash = 3\<rparr>])"
  by (simp add: older_fetch_locator_block_hashes_def newer_fetch_locator_block_hashes_def
      sample_chain_fields safe_add_def max_size_t_def limit_stop_def raise_start_def
      sample_older_loop sample_newer_loop)

section \<open>The modelled store\<close>

lemma store_push_all_below:
  "k < height \<Longrightarrow> blocks_by_height (store_push_all blocks height db) k = blocks_by_height db k"
  by (induction blocks arbitrary: height db) (simp_all add: store_push_def)

lemma store_push_all_row:
  "i < length blocks \<Longrightarrow>
   blocks_by_height (store_push_all blocks height db) (height + i) =
     Some (result_of_block (blocks ! i) (height + i))"
proof (induction blocks arbitrary: height db i)
  case Nil
  then show ?case by simp
next
  case (Cons blk blocks)
  show ?case
  proof (cases i)
    case 0
    then show ?thesis by (simp add: store_push_all_below store_push_def)
  next
    case (Suc j)
    with Cons.prems have "j < length blocks" by simp
    from Cons.IH [OF this, of "Suc height" "store_push blk height db"] Suc
    show ?thesis by simp
  qed
qed

lemma store_push_all_top:
  "blocks \<noteq> [] \<Longrightarrow>
   blocks_top (store_push_all blocks height db) = Some (height + length blocks - 1)"
proof (induction blocks arbitrary: height db)
  case Nil
  then show ?case by simp
next
  case (Cons blk blocks)
  show ?case
  proof (cases "blocks = []")
    case True
    then show ?thesis by (simp add: store_push_def)
  next
    case False
    from Cons.IH [OF False, of "Suc height" "store_push blk height db"] False
    show ?thesis by (cases blocks) simp_all
  qed
qed

lemma sample_store_unfold:
  "sample_store =
     store_push (sample_block 3 2 3) 2
       (store_push (sample_block 2 1 5) 1 (store_push (sample_block 1 0 5) 0 empty_store))"
  by (simp add: sample_store_def numeral_2_eq_2)

lemma sample_store_hashes:
  "blocks_by_hash sample_store 0 = None"
  "blocks_by_hash sample_store 1 = Some (result_of_block (sample_block 1 0 5) 0)"
  "blocks_by_hash sample_store 2 = Some (result_of_block (sample_block 2 1 5) 1)"
  "blocks_by_hash sample_store 3 = Some (result_of_block (sample_block 3 2 3) 2)"
  "blocks_by_hash sample_store 4 = None"
  "blocks_by_hash sample_store 9 = None"
  by (simp_all add: sample_store_unfold store_push_def empty_store_def block_hash_def
      sample_block_def)

text \<open>
  C7. \<open>reorganize\<close> with an empty incoming list hands \<open>operation_failed\<close> to the
  handler and returns the chain (and the outgoing list) as they were, whatever the
  store's own \<open>reorganize\<close> would do: it is not called. Hence a reorganization that
  reports \<open>success\<close> had at least one incoming block; over the store as modelled from
  the specification, the incoming blocks then sit at the heights
  \<open>fork_point.height + 1\<close>, \<open>fork_point.height + 2\<close>, ... in list order, and the
  new top height is \<open>fork_point.height\<close> plus the length of the incoming list.
\<close>

theorem reorganize_needs_incoming:
  "reorganize env fork_point [] outgoing chain = (operation_failed, outgoing, chain) \<and>
   (\<forall>incoming outgoing' chain'.
      database_reorganize env = store_reorganize \<longrightarrow>
      reorganize env fork_point incoming outgoing chain = (success, outgoing', chain') \<longrightarrow>
        incoming \<noteq> [] \<and>
        blocks_top (database chain') = Some (checkpoint_height fork_point + length incoming) \<and>
        (\<forall>i<length incoming.
           blocks_by_height (database chain') (checkpoint_height fork_point + 1 + i) =
             Some (result_of_block (incoming ! i) (checkpoint_height fork_point + 1 + i))))"
proof (rule conjI)
  show "reorganize env fork_point [] outgoing chain = (operation_failed, outgoing, chain)"
    by (simp add: reorganize_def)
next
  show "\<forall>incoming outgoing' chain'.
      database_reorganize env = store_reorganize \<longrightarrow>
      reorganize env fork_point incoming outgoing chain = (success, outgoing', chain') \<longrightarrow>
        incoming \<noteq> [] \<and>
        blocks_top (database chain') = Some (checkpoint_height fork_point + length incoming) \<and>
        (\<forall>i<length incoming.
           blocks_by_height (database chain') (checkpoint_height fork_point + 1 + i) =
             Some (result_of_block (incoming ! i) (checkpoint_height fork_point + 1 + i)))"
  proof (intro allI impI)
    fix incoming outgoing' chain'
    assume store: "database_reorganize env = store_reorganize"
      and ok: "reorganize env fork_point incoming outgoing chain = (success, outgoing', chain')"
    have nonempty: "incoming \<noteq> []"
      using ok by (auto simp: reorganize_def)
    from ok nonempty store obtain popped db' where
      pop: "store_pop_above (checkpoint_hash fork_point) (database chain) = Some (popped, db')"
      and db: "database chain' =
                 store_push_all incoming (Suc (checkpoint_height fork_point)) db'"
      by (auto simp: reorganize_def store_reorganize_def handle_reorganize_def
          set_chain_state_def split: option.splits prod.splits if_splits)
    have top: "blocks_top (database chain') =
                 Some (checkpoint_height fork_point + length incoming)"
      using nonempty by (simp add: db store_push_all_top)
    have rows: "\<forall>i<length incoming.
           blocks_by_height (database chain') (checkpoint_height fork_point + 1 + i) =
             Some (result_of_block (incoming ! i) (checkpoint_height fork_point + 1 + i))"
      using store_push_all_row [of _ incoming "Suc (checkpoint_height fork_point)" db']
      by (simp add: db)
    from nonempty top rows
    show "incoming \<noteq> [] \<and>
        blocks_top (database chain') = Some (checkpoint_height fork_point + length incoming) \<and>
        (\<forall>i<length incoming.
           blocks_by_height (database chain') (checkpoint_height fork_point + 1 + i) =
             Some (result_of_block (incoming ! i) (checkpoint_height fork_point + 1 + i)))"
      by blast
  qed
qed

theorem reorganize_needs_incoming_witness:
  "reorganize sample_env sample_fork_point [] [] sample_chain =
     (operation_failed, [], sample_chain) \<and>
   database_reorganize sample_env = store_reorganize \<and>
   fst (reorganize sample_env sample_fork_point [heavy_sibling] [] sample_chain) = success \<and>
   blocks_top (database (snd (snd
     (reorganize sample_env sample_fork_point [heavy_sibling] [] sample_chain)))) = Some 2"
proof -
  note claim = reorganize_needs_incoming [of sample_env sample_fork_point "[]" sample_chain]
  have store: "database_reorganize sample_env = store_reorganize"
    by (simp add: sample_env_def)
  have ok: "fst (reorganize sample_env sample_fork_point [heavy_sibling] [] sample_chain)
      = success"
    by code_simp
  then have run: "reorganize sample_env sample_fork_point [heavy_sibling] [] sample_chain =
      (success,
       fst (snd (reorganize sample_env sample_fork_point [heavy_sibling] [] sample_chain)),
       snd (snd (reorganize sample_env sample_fork_point [heavy_sibling] [] sample_chain)))"
    by (metis prod.collapse)
  have height: "checkpoint_height sample_fork_point + length [heavy_sibling] = 2"
    by (simp add: sample_fork_point_def)
  from claim store run
  have "blocks_top (database (snd (snd
     (reorganize sample_env sample_fork_point [heavy_sibling] [] sample_chain)))) =
        Some (checkpoint_height sample_fork_point + length [heavy_sibling])"
    by blast
  with height have top: "blocks_top (database (snd (snd
     (reorganize sample_env sample_fork_point [heavy_sibling] [] sample_chain)))) = Some 2"
    by simp
  from claim store ok top show ?thesis by blast
qed

section \<open>The branch after its top block is annotated\<close>

lemma branch_top_Some:
  "branch_top br = Some top0 \<Longrightarrow> branch_blocks br \<noteq> [] \<and> top0 = last (branch_blocks br)"
  by (auto simp: branch_top_def split: if_splits)

lemma branch_replace_top_height:
  "branch_height (branch_replace_top blk br) = branch_height br"
  by (simp add: branch_replace_top_def)

lemma branch_replace_top_top_height:
  "branch_top br = Some top0 \<Longrightarrow>
   branch_top_height (branch_replace_top blk br) = branch_top_height br"
  by (auto simp: branch_replace_top_def branch_top_height_def dest: branch_top_Some)

lemma branch_work_replace_top:
  assumes "branch_top br = Some top0"
  shows "branch_work P (branch_replace_top (mark_valid height now top0) br) = branch_work P br"
proof -
  from assms have ne: "branch_blocks br \<noteq> []" and top0: "top0 = last (branch_blocks br)"
    by (auto dest: branch_top_Some)
  have bits: "header_bits (block_header (mark_valid height now top0)) =
              header_bits (block_header top0)"
    by (simp add: mark_valid_def)
  have "sum_list (map (\<lambda>blk. P (header_bits (block_header blk)))
          (butlast (branch_blocks br) @ [mark_valid height now top0])) =
        sum_list (map (\<lambda>blk. P (header_bits (block_header blk)))
          (butlast (branch_blocks br) @ [last (branch_blocks br)]))"
    using bits top0 by simp
  also have "butlast (branch_blocks br) @ [last (branch_blocks br)] = branch_blocks br"
    using ne by simp
  finally show ?thesis
    by (simp add: branch_work_def branch_replace_top_def)
qed

section \<open>From organize to the work comparison\<close>

lemma organize_reaches_handle_connect:
  assumes "\<not> stopped organizer"
    and "validator_check env blk = success"
    and "\<not> branch_empty (pool_get_path env (block_pool organizer) blk)"
    and "\<not> get_block_exists (fast_chain organizer) (block_hash blk)"
    and "set_branch_height organizer (pool_get_path env (block_pool organizer) blk) = Some br"
    and "validator_accept env (fast_chain organizer) br = success"
    and "validator_connect env (fast_chain organizer) br = success"
    and "\<not> stop_during_accept sched"
    and "\<not> stop_during_connect sched"
  shows "organize env sched organizer blk =
           (case handle_connect env success br organizer of
              Inl e \<Rightarrow> Inl e
            | Inr (result, calls, organizer') \<Rightarrow>
                Inr (result,
                     ValidatorCheck blk # ValidatorAccept br # ValidatorConnect br # calls,
                     organizer'))"
  using assms
  by (simp add: organize_def handle_accept_def interleave_stop_def Let_def
      split: sum.splits prod.splits)

text \<open>\<open>organize\<close> always comes back with one code for the caller's handler: the
  branch it hands on has a top block, so \<open>handle_connect\<close> has one to annotate.\<close>

lemma organize_returns:
  "\<exists>result calls organizer'.
     organize env sched organizer blk = Inr (result, calls, organizer')"
proof -
  have top: "branch_top (branch_set_height height br) \<noteq> None" if "\<not> branch_empty br"
    for height br
    using that by (simp add: branch_top_def branch_set_height_def branch_empty_def)
  have connect: "\<exists>result calls s'. handle_connect env ec br s = Inr (result, calls, s')"
    if "branch_top br \<noteq> None" for ec br and s :: "'a block_organizer"
    using that
    by (auto simp: handle_connect_def Let_def split: option.splits prod.splits)
  have accept: "\<exists>result calls s'. handle_accept env sched ec br s = Inr (result, calls, s')"
    if "branch_top br \<noteq> None" for ec br and s :: "'a block_organizer"
  proof (cases "stopped s \<or> ec \<noteq> success")
    case True
    then show ?thesis by (auto simp: handle_accept_def)
  next
    case False
    obtain stop_calls s1 where i: "interleave_stop (stop_during_connect sched) s =
        (stop_calls, s1)"
      by (cases "interleave_stop (stop_during_connect sched) s") auto
    from connect [OF that, of "validator_connect env (fast_chain s) br" s1]
    obtain result calls s' where
      "handle_connect env (validator_connect env (fast_chain s) br) br s1 =
         Inr (result, calls, s')"
      by blast
    with False i show ?thesis by (simp add: handle_accept_def Let_def)
  qed
  show ?thesis
  proof (cases "stopped organizer \<or> validator_check env blk \<noteq> success \<or>
      branch_empty (pool_get_path env (block_pool organizer) blk) \<or>
      get_block_exists (fast_chain organizer) (block_hash blk)")
    case True
    then show ?thesis by (auto simp: organize_def Let_def)
  next
    case False
    show ?thesis
    proof (cases "set_branch_height organizer (pool_get_path env (block_pool organizer) blk)")
      case None
      with False show ?thesis by (simp add: organize_def Let_def)
    next
      case (Some br')
      then obtain height where
        "br' = branch_set_height height (pool_get_path env (block_pool organizer) blk)"
        by (auto simp: set_branch_height_def split: option.splits)
      with False top [of "pool_get_path env (block_pool organizer) blk" height]
      have "branch_top br' \<noteq> None"
        by simp
      obtain stop_calls s1 where i: "interleave_stop (stop_during_accept sched) organizer =
          (stop_calls, s1)"
        by (cases "interleave_stop (stop_during_accept sched) organizer") auto
      from accept [OF \<open>branch_top br' \<noteq> None\<close>,
          of "validator_accept env (fast_chain organizer) br'" s1]
      obtain result calls s' where
        "handle_accept env sched (validator_accept env (fast_chain organizer) br') br' s1 =
           Inr (result, calls, s')"
        by blast
      with False Some i show ?thesis by (simp add: organize_def Let_def)
    qed
  qed
qed

section \<open>The work comparison\<close>

text \<open>
  C1. Take a branch that reaches the work comparison of \<open>handle_connect\<close>: the
  organizer is not stopped, the connect phase delivered \<open>success\<close>, the branch has a
  top block, and \<open>get_branch_work\<close> returned \<open>threshold\<close> for the branch work as
  maximum from \<open>fork height + 1\<close>. If the branch work is at most the threshold, the
  handler receives \<open>insufficient_work\<close>, the only call made is the pool's \<open>add\<close> of the
  (annotated) top block, and nothing but the pool changes: \<open>reorganize\<close> is not
  invoked and the chain is as before. And whatever the state and the code passed in,
  if \<open>handle_connect\<close> does invoke \<open>reorganize\<close>, then \<open>get_branch_work\<close> returned a
  threshold strictly below the branch work. For the whole of \<open>organize\<close>: when the
  block passes the check, is no duplicate, has this branch as its path with the fork
  height set, passes accept and connect, and no stop arrives meanwhile, the caller's
  handler receives \<open>insufficient_work\<close> after the calls check, accept, connect and
  the pool's \<open>add\<close> of the top block.
\<close>

theorem handle_connect_insufficient_work:
  assumes "\<not> stopped organizer"
    and "branch_top br = Some top0"
    and "get_branch_work (chain_block_proof env) (database (fast_chain organizer))
           (branch_work (chain_block_proof env) br) (branch_height br + 1) = Some threshold"
    and "branch_work (chain_block_proof env) br \<le> threshold"
    and "top_block = mark_valid (branch_top_height br) (steady_clock_now env) top0"
  shows "handle_connect env success br organizer =
           Inr (insufficient_work, [PoolAdd top_block],
                organizer\<lparr>block_pool := pool_add env top_block (block_pool organizer)\<rparr>) \<and>
         (\<forall>ec organizer0 result calls organizer' fork_point blocks.
            handle_connect env ec br organizer0 = Inr (result, calls, organizer') \<longrightarrow>
            ChainReorganize fork_point blocks \<in> set calls \<longrightarrow>
              (\<exists>t. get_branch_work (chain_block_proof env) (database (fast_chain organizer0))
                      (branch_work (chain_block_proof env) br) (branch_height br + 1) = Some t \<and>
                   t < branch_work (chain_block_proof env) br)) \<and>
         (\<forall>blk sched.
            validator_check env blk = success \<longrightarrow>
            \<not> branch_empty (pool_get_path env (block_pool organizer) blk) \<longrightarrow>
            \<not> get_block_exists (fast_chain organizer) (block_hash blk) \<longrightarrow>
            set_branch_height organizer (pool_get_path env (block_pool organizer) blk) = Some br \<longrightarrow>
            validator_accept env (fast_chain organizer) br = success \<longrightarrow>
            validator_connect env (fast_chain organizer) br = success \<longrightarrow>
            \<not> stop_during_accept sched \<longrightarrow>
            \<not> stop_during_connect sched \<longrightarrow>
            organize env sched organizer blk =
              Inr (insufficient_work,
                   [ValidatorCheck blk, ValidatorAccept br, ValidatorConnect br,
                    PoolAdd top_block],
                   organizer\<lparr>block_pool := pool_add env top_block (block_pool organizer)\<rparr>))"
proof (intro conjI)
  show connect: "handle_connect env success br organizer =
           Inr (insufficient_work, [PoolAdd top_block],
                organizer\<lparr>block_pool := pool_add env top_block (block_pool organizer)\<rparr>)"
    using assms
    by (simp add: handle_connect_def Let_def branch_work_replace_top branch_replace_top_height)
  show "\<forall>blk sched.
            validator_check env blk = success \<longrightarrow>
            \<not> branch_empty (pool_get_path env (block_pool organizer) blk) \<longrightarrow>
            \<not> get_block_exists (fast_chain organizer) (block_hash blk) \<longrightarrow>
            set_branch_height organizer (pool_get_path env (block_pool organizer) blk) = Some br \<longrightarrow>
            validator_accept env (fast_chain organizer) br = success \<longrightarrow>
            validator_connect env (fast_chain organizer) br = success \<longrightarrow>
            \<not> stop_during_accept sched \<longrightarrow>
            \<not> stop_during_connect sched \<longrightarrow>
            organize env sched organizer blk =
              Inr (insufficient_work,
                   [ValidatorCheck blk, ValidatorAccept br, ValidatorConnect br,
                    PoolAdd top_block],
                   organizer\<lparr>block_pool := pool_add env top_block (block_pool organizer)\<rparr>)"
    using assms(1) by (simp add: organize_reaches_handle_connect connect)
next
  show "\<forall>ec organizer0 result calls organizer' fork_point blocks.
            handle_connect env ec br organizer0 = Inr (result, calls, organizer') \<longrightarrow>
            ChainReorganize fork_point blocks \<in> set calls \<longrightarrow>
              (\<exists>t. get_branch_work (chain_block_proof env) (database (fast_chain organizer0))
                      (branch_work (chain_block_proof env) br) (branch_height br + 1) = Some t \<and>
                   t < branch_work (chain_block_proof env) br)"
  proof (intro allI impI)
    fix ec organizer0 result calls organizer' fork_point blocks
    assume run: "handle_connect env ec br organizer0 = Inr (result, calls, organizer')"
      and called: "ChainReorganize fork_point blocks \<in> set calls"
    from run called assms(2)
    show "\<exists>t. get_branch_work (chain_block_proof env) (database (fast_chain organizer0))
                      (branch_work (chain_block_proof env) br) (branch_height br + 1) = Some t \<and>
                   t < branch_work (chain_block_proof env) br"
      by (auto simp: handle_connect_def Let_def branch_work_replace_top
          branch_replace_top_height split: if_splits option.splits)
  qed
qed

theorem handle_connect_insufficient_work_witness:
  "\<not> stopped sample_organizer \<and>
   branch_top light_branch = Some light_sibling \<and>
   get_branch_work sample_proof sample_store 3 2 = Some 3 \<and>
   branch_work sample_proof light_branch = 3 \<and>
   handle_connect sample_env success light_branch sample_organizer =
     Inr (insufficient_work, [PoolAdd (mark_valid 2 7 light_sibling)],
          sample_organizer\<lparr>block_pool := [mark_valid 2 7 light_sibling]\<rparr>) \<and>
   set_branch_height sample_organizer
     (pool_get_path sample_env (block_pool sample_organizer) light_sibling) = Some light_branch \<and>
   organize sample_env no_stop sample_organizer light_sibling =
     Inr (insufficient_work,
          [ValidatorCheck light_sibling, ValidatorAccept light_branch,
           ValidatorConnect light_branch, PoolAdd (mark_valid 2 7 light_sibling)],
          sample_organizer\<lparr>block_pool := [mark_valid 2 7 light_sibling]\<rparr>)"
proof -
  have running: "\<not> stopped sample_organizer" by code_simp
  have top: "branch_top light_branch = Some light_sibling" by code_simp
  have work: "branch_work sample_proof light_branch = 3" by code_simp
  have threshold: "get_branch_work sample_proof sample_store 3 2 = Some 3" by code_simp
  have threshold': "get_branch_work (chain_block_proof sample_env)
      (database (fast_chain sample_organizer))
      (branch_work (chain_block_proof sample_env) light_branch)
      (branch_height light_branch + 1) = Some 3" by code_simp
  have below: "branch_work (chain_block_proof sample_env) light_branch \<le> 3" by code_simp
  have mark: "mark_valid 2 7 light_sibling =
      mark_valid (branch_top_height light_branch) (steady_clock_now sample_env) light_sibling"
    by code_simp
  have pool: "pool_add sample_env (mark_valid 2 7 light_sibling) (block_pool sample_organizer) =
      [mark_valid 2 7 light_sibling]" by code_simp
  have check: "validator_check sample_env light_sibling = success"
    by (simp add: sample_env_def)
  have path: "\<not> branch_empty (pool_get_path sample_env (block_pool sample_organizer)
      light_sibling)"
    by code_simp
  have fresh: "\<not> get_block_exists (fast_chain sample_organizer) (block_hash light_sibling)"
    by code_simp
  have height: "set_branch_height sample_organizer
     (pool_get_path sample_env (block_pool sample_organizer) light_sibling) = Some light_branch"
    by code_simp
  have accept: "validator_accept sample_env (fast_chain sample_organizer) light_branch = success"
    by (simp add: sample_env_def)
  have connect: "validator_connect sample_env (fast_chain sample_organizer) light_branch =
      success"
    by (simp add: sample_env_def)
  have calm: "\<not> stop_during_accept no_stop" "\<not> stop_during_connect no_stop"
    by (simp_all add: no_stop_def)
  note claim = handle_connect_insufficient_work [OF running top threshold' below mark]
  from claim
  have a: "handle_connect sample_env success light_branch sample_organizer =
     Inr (insufficient_work, [PoolAdd (mark_valid 2 7 light_sibling)],
          sample_organizer\<lparr>block_pool :=
            pool_add sample_env (mark_valid 2 7 light_sibling) (block_pool sample_organizer)\<rparr>)"
    by blast
  from claim check path fresh height accept connect calm
  have b: "organize sample_env no_stop sample_organizer light_sibling =
     Inr (insufficient_work,
          [ValidatorCheck light_sibling, ValidatorAccept light_branch,
           ValidatorConnect light_branch, PoolAdd (mark_valid 2 7 light_sibling)],
          sample_organizer\<lparr>block_pool :=
            pool_add sample_env (mark_valid 2 7 light_sibling) (block_pool sample_organizer)\<rparr>)"
    by blast
  from a b pool running top threshold work height show ?thesis by simp
qed

section \<open>A committed reorganization\<close>

lemma subscriber_run_notify:
  "deliveries (subscriber_notify event sub) =
     deliveries sub @ map (\<lambda>handler. (handler, event)) (subscriptions sub)"
  by (simp add: subscriber_notify_def)

text \<open>
  C2. When the swap reports \<open>success\<close>, \<open>handle_reorganized\<close> asks, in this order, the
  pool to remove the branch blocks, the pool to prune at the branch's top height, the
  pool to add the outgoing blocks, and the subscriber to relay
  \<open>(success, branch height, branch blocks, outgoing)\<close>, and hands \<open>success\<close> to the
  handler; the pool it leaves is the old one after these three operations. Seen from
  \<open>handle_connect\<close>: a branch with more work than the threshold whose swap succeeds
  gives exactly the calls reorganize, remove, prune, add, relay, the chain returned
  by the swap and the code \<open>success\<close>; and seen from \<open>organize\<close>, for a block that
  passes the check, is no duplicate, has that branch as its path and passes accept and
  connect with no stop meanwhile, the same calls follow check, accept and connect and
  the caller's handler receives \<open>success\<close>. Every live subscriber is delivered that
  one event.
\<close>

theorem reorganization_commit_sequence:
  "handle_reorganized env success br outgoing organizer =
     (success,
      [PoolRemove (branch_blocks br), PoolPrune (branch_top_height br), PoolAddList outgoing,
       SubscriberRelay success (branch_height br) (branch_blocks br) outgoing],
      organizer\<lparr>block_pool :=
        pool_add_list env outgoing
          (pool_prune env (branch_top_height br)
            (pool_remove env (branch_blocks br) (block_pool organizer)))\<rparr>) \<and>
   (\<forall>top0 threshold chain' br0.
      \<not> stopped organizer \<longrightarrow>
      branch_top br0 = Some top0 \<longrightarrow>
      br = branch_replace_top
             (mark_valid (branch_top_height br0) (steady_clock_now env) top0) br0 \<longrightarrow>
      get_branch_work (chain_block_proof env) (database (fast_chain organizer))
        (branch_work (chain_block_proof env) br0) (branch_height br0 + 1) = Some threshold \<longrightarrow>
      threshold < branch_work (chain_block_proof env) br0 \<longrightarrow>
      reorganize env (branch_fork_point br) (branch_blocks br) [] (fast_chain organizer) =
        (success, outgoing, chain') \<longrightarrow>
      handle_connect env success br0 organizer =
        Inr (success,
             [ChainReorganize (branch_fork_point br) (branch_blocks br),
              PoolRemove (branch_blocks br), PoolPrune (branch_top_height br),
              PoolAddList outgoing,
              SubscriberRelay success (branch_height br) (branch_blocks br) outgoing],
             organizer\<lparr>fast_chain := chain',
               block_pool :=
                 pool_add_list env outgoing
                   (pool_prune env (branch_top_height br)
                     (pool_remove env (branch_blocks br) (block_pool organizer)))\<rparr>)) \<and>
   (\<forall>top0 threshold chain' br0 blk sched.
      \<not> stopped organizer \<longrightarrow>
      validator_check env blk = success \<longrightarrow>
      \<not> branch_empty (pool_get_path env (block_pool organizer) blk) \<longrightarrow>
      \<not> get_block_exists (fast_chain organizer) (block_hash blk) \<longrightarrow>
      set_branch_height organizer (pool_get_path env (block_pool organizer) blk) = Some br0 \<longrightarrow>
      validator_accept env (fast_chain organizer) br0 = success \<longrightarrow>
      validator_connect env (fast_chain organizer) br0 = success \<longrightarrow>
      \<not> stop_during_accept sched \<longrightarrow>
      \<not> stop_during_connect sched \<longrightarrow>
      branch_top br0 = Some top0 \<longrightarrow>
      br = branch_replace_top
             (mark_valid (branch_top_height br0) (steady_clock_now env) top0) br0 \<longrightarrow>
      get_branch_work (chain_block_proof env) (database (fast_chain organizer))
        (branch_work (chain_block_proof env) br0) (branch_height br0 + 1) = Some threshold \<longrightarrow>
      threshold < branch_work (chain_block_proof env) br0 \<longrightarrow>
      reorganize env (branch_fork_point br) (branch_blocks br) [] (fast_chain organizer) =
        (success, outgoing, chain') \<longrightarrow>
      organize env sched organizer blk =
        Inr (success,
             [ValidatorCheck blk, ValidatorAccept br0, ValidatorConnect br0,
              ChainReorganize (branch_fork_point br) (branch_blocks br),
              PoolRemove (branch_blocks br), PoolPrune (branch_top_height br),
              PoolAddList outgoing,
              SubscriberRelay success (branch_height br) (branch_blocks br) outgoing],
             organizer\<lparr>fast_chain := chain',
               block_pool :=
                 pool_add_list env outgoing
                   (pool_prune env (branch_top_height br)
                     (pool_remove env (branch_blocks br) (block_pool organizer)))\<rparr>)) \<and>
   deliveries (subscriber_run
       [PoolRemove (branch_blocks br), PoolPrune (branch_top_height br), PoolAddList outgoing,
        SubscriberRelay success (branch_height br) (branch_blocks br) outgoing] sub) =
     deliveries sub @
       map (\<lambda>handler. (handler, (success, branch_height br, branch_blocks br, outgoing)))
         (subscriptions sub)"
proof -
  have connect_level: "handle_connect env success br0 organizer =
        Inr (success,
             [ChainReorganize (branch_fork_point br) (branch_blocks br),
              PoolRemove (branch_blocks br), PoolPrune (branch_top_height br),
              PoolAddList outgoing,
              SubscriberRelay success (branch_height br) (branch_blocks br) outgoing],
             organizer\<lparr>fast_chain := chain',
               block_pool :=
                 pool_add_list env outgoing
                   (pool_prune env (branch_top_height br)
                     (pool_remove env (branch_blocks br) (block_pool organizer)))\<rparr>)"
    if running: "\<not> stopped organizer"
      and top: "branch_top br0 = Some top0"
      and br: "br = branch_replace_top
             (mark_valid (branch_top_height br0) (steady_clock_now env) top0) br0"
      and threshold: "get_branch_work (chain_block_proof env) (database (fast_chain organizer))
        (branch_work (chain_block_proof env) br0) (branch_height br0 + 1) = Some threshold"
      and more: "threshold < branch_work (chain_block_proof env) br0"
      and swap: "reorganize env (branch_fork_point br) (branch_blocks br) []
        (fast_chain organizer) = (success, outgoing, chain')"
    for top0 threshold chain' br0
  proof -
    have work: "branch_work (chain_block_proof env) br = branch_work (chain_block_proof env) br0"
      using top br by (simp add: branch_work_replace_top)
    have height: "branch_height br = branch_height br0"
      using br by (simp add: branch_replace_top_height)
    have not_le: "\<not> branch_work (chain_block_proof env) br0 \<le> threshold"
      using more by (simp add: not_le)
    show ?thesis
      using running top threshold not_le swap work height
      by (simp add: handle_connect_def Let_def br [symmetric] handle_reorganized_def)
  qed
  show ?thesis
  proof (intro conjI allI impI)
    show "handle_reorganized env success br outgoing organizer =
       (success,
        [PoolRemove (branch_blocks br), PoolPrune (branch_top_height br), PoolAddList outgoing,
         SubscriberRelay success (branch_height br) (branch_blocks br) outgoing],
        organizer\<lparr>block_pool :=
          pool_add_list env outgoing
            (pool_prune env (branch_top_height br)
              (pool_remove env (branch_blocks br) (block_pool organizer)))\<rparr>)"
      by (simp add: handle_reorganized_def)
  next
    fix top0 threshold chain' br0
    assume "\<not> stopped organizer" "branch_top br0 = Some top0"
      "br = branch_replace_top
             (mark_valid (branch_top_height br0) (steady_clock_now env) top0) br0"
      "get_branch_work (chain_block_proof env) (database (fast_chain organizer))
        (branch_work (chain_block_proof env) br0) (branch_height br0 + 1) = Some threshold"
      "threshold < branch_work (chain_block_proof env) br0"
      "reorganize env (branch_fork_point br) (branch_blocks br) []
        (fast_chain organizer) = (success, outgoing, chain')"
    then show "handle_connect env success br0 organizer =
        Inr (success,
             [ChainReorganize (branch_fork_point br) (branch_blocks br),
              PoolRemove (branch_blocks br), PoolPrune (branch_top_height br),
              PoolAddList outgoing,
              SubscriberRelay success (branch_height br) (branch_blocks br) outgoing],
             organizer\<lparr>fast_chain := chain',
               block_pool :=
                 pool_add_list env outgoing
                   (pool_prune env (branch_top_height br)
                     (pool_remove env (branch_blocks br) (block_pool organizer)))\<rparr>)"
      by (rule connect_level)
  next
    fix top0 threshold chain' br0 blk and sched :: schedule
    assume running: "\<not> stopped organizer"
      and reach: "validator_check env blk = success"
        "\<not> branch_empty (pool_get_path env (block_pool organizer) blk)"
        "\<not> get_block_exists (fast_chain organizer) (block_hash blk)"
        "set_branch_height organizer (pool_get_path env (block_pool organizer) blk) = Some br0"
        "validator_accept env (fast_chain organizer) br0 = success"
        "validator_connect env (fast_chain organizer) br0 = success"
        "\<not> stop_during_accept sched" "\<not> stop_during_connect sched"
      and rest: "branch_top br0 = Some top0"
        "br = branch_replace_top
             (mark_valid (branch_top_height br0) (steady_clock_now env) top0) br0"
        "get_branch_work (chain_block_proof env) (database (fast_chain organizer))
          (branch_work (chain_block_proof env) br0) (branch_height br0 + 1) = Some threshold"
        "threshold < branch_work (chain_block_proof env) br0"
        "reorganize env (branch_fork_point br) (branch_blocks br) []
          (fast_chain organizer) = (success, outgoing, chain')"
    show "organize env sched organizer blk =
        Inr (success,
             [ValidatorCheck blk, ValidatorAccept br0, ValidatorConnect br0,
              ChainReorganize (branch_fork_point br) (branch_blocks br),
              PoolRemove (branch_blocks br), PoolPrune (branch_top_height br),
              PoolAddList outgoing,
              SubscriberRelay success (branch_height br) (branch_blocks br) outgoing],
             organizer\<lparr>fast_chain := chain',
               block_pool :=
                 pool_add_list env outgoing
                   (pool_prune env (branch_top_height br)
                     (pool_remove env (branch_blocks br) (block_pool organizer)))\<rparr>)"
      by (simp add: organize_reaches_handle_connect [OF running reach]
          connect_level [OF running rest])
  next
    show "deliveries (subscriber_run
         [PoolRemove (branch_blocks br), PoolPrune (branch_top_height br), PoolAddList outgoing,
          SubscriberRelay success (branch_height br) (branch_blocks br) outgoing] sub) =
       deliveries sub @
         map (\<lambda>handler. (handler, (success, branch_height br, branch_blocks br, outgoing)))
           (subscriptions sub)"
      by (simp add: subscriber_run_notify)
  qed
qed

theorem reorganization_commit_sequence_witness:
  "\<not> stopped sample_organizer \<and>
   branch_top heavy_branch = Some heavy_sibling \<and>
   get_branch_work sample_proof sample_store 9 2 = Some 3 \<and>
   branch_work sample_proof heavy_branch = 9 \<and>
   set_branch_height sample_organizer
     (pool_get_path sample_env (block_pool sample_organizer) heavy_sibling) = Some heavy_branch \<and>
   (\<exists>chain'.
      handle_connect sample_env success heavy_branch sample_organizer =
        Inr (success,
             [ChainReorganize sample_fork_point [mark_valid 2 7 heavy_sibling],
              PoolRemove [mark_valid 2 7 heavy_sibling], PoolPrune 2,
              PoolAddList [sample_block 3 2 3],
              SubscriberRelay success 1 [mark_valid 2 7 heavy_sibling] [sample_block 3 2 3]],
             sample_organizer\<lparr>fast_chain := chain', block_pool := [sample_block 3 2 3]\<rparr>) \<and>
      organize sample_env no_stop sample_organizer heavy_sibling =
        Inr (success,
             [ValidatorCheck heavy_sibling, ValidatorAccept heavy_branch,
              ValidatorConnect heavy_branch,
              ChainReorganize sample_fork_point [mark_valid 2 7 heavy_sibling],
              PoolRemove [mark_valid 2 7 heavy_sibling], PoolPrune 2,
              PoolAddList [sample_block 3 2 3],
              SubscriberRelay success 1 [mark_valid 2 7 heavy_sibling] [sample_block 3 2 3]],
             sample_organizer\<lparr>fast_chain := chain', block_pool := [sample_block 3 2 3]\<rparr>) \<and>
      blocks_top (database chain') = Some 2)"
proof -
  define br where "br = branch_replace_top
     (mark_valid (branch_top_height heavy_branch) (steady_clock_now sample_env) heavy_sibling)
     heavy_branch"
  define r where "r = reorganize sample_env (branch_fork_point br) (branch_blocks br) []
     (fast_chain sample_organizer)"
  have running: "\<not> stopped sample_organizer" by code_simp
  have top: "branch_top heavy_branch = Some heavy_sibling" by code_simp
  have work: "branch_work sample_proof heavy_branch = 9" by code_simp
  have threshold: "get_branch_work sample_proof sample_store 9 2 = Some 3" by code_simp
  have threshold': "get_branch_work (chain_block_proof sample_env)
      (database (fast_chain sample_organizer))
      (branch_work (chain_block_proof sample_env) heavy_branch)
      (branch_height heavy_branch + 1) = Some 3" by code_simp
  have more: "3 < branch_work (chain_block_proof sample_env) heavy_branch" by code_simp
  have ok: "fst r = success" unfolding r_def br_def by code_simp
  have out: "fst (snd r) = [sample_block 3 2 3]" unfolding r_def br_def by code_simp
  have tip: "blocks_top (database (snd (snd r))) = Some 2" unfolding r_def br_def by code_simp
  have swap: "reorganize sample_env (branch_fork_point br) (branch_blocks br) []
     (fast_chain sample_organizer) = (success, [sample_block 3 2 3], snd (snd r))"
    using ok out unfolding r_def by (metis prod.collapse)
  have blocks: "branch_blocks br = [mark_valid 2 7 heavy_sibling]"
    unfolding br_def by code_simp
  have fork: "branch_fork_point br = sample_fork_point" unfolding br_def by code_simp
  have heights: "branch_top_height br = 2" "branch_height br = 1"
    unfolding br_def by code_simp+
  have pool: "pool_add_list sample_env [sample_block 3 2 3]
      (pool_prune sample_env 2
        (pool_remove sample_env [mark_valid 2 7 heavy_sibling] (block_pool sample_organizer))) =
      [sample_block 3 2 3]"
    by code_simp
  have check: "validator_check sample_env heavy_sibling = success"
    by (simp add: sample_env_def)
  have path: "\<not> branch_empty (pool_get_path sample_env (block_pool sample_organizer)
      heavy_sibling)"
    by code_simp
  have fresh: "\<not> get_block_exists (fast_chain sample_organizer) (block_hash heavy_sibling)"
    by code_simp
  have height: "set_branch_height sample_organizer
     (pool_get_path sample_env (block_pool sample_organizer) heavy_sibling) = Some heavy_branch"
    by code_simp
  have accept: "validator_accept sample_env (fast_chain sample_organizer) heavy_branch = success"
    by (simp add: sample_env_def)
  have connect: "validator_connect sample_env (fast_chain sample_organizer) heavy_branch =
      success"
    by (simp add: sample_env_def)
  have calm: "\<not> stop_during_accept no_stop" "\<not> stop_during_connect no_stop"
    by (simp_all add: no_stop_def)
  note claim = reorganization_commit_sequence
      [of sample_env br "[sample_block 3 2 3]" sample_organizer]
  from claim running top br_def threshold' more swap
  have "handle_connect sample_env success heavy_branch sample_organizer =
        Inr (success,
             [ChainReorganize (branch_fork_point br) (branch_blocks br),
              PoolRemove (branch_blocks br), PoolPrune (branch_top_height br),
              PoolAddList [sample_block 3 2 3],
              SubscriberRelay success (branch_height br) (branch_blocks br)
                [sample_block 3 2 3]],
             sample_organizer\<lparr>fast_chain := snd (snd r),
               block_pool :=
                 pool_add_list sample_env [sample_block 3 2 3]
                   (pool_prune sample_env (branch_top_height br)
                     (pool_remove sample_env (branch_blocks br)
                       (block_pool sample_organizer)))\<rparr>)"
    by blast
  then have a: "handle_connect sample_env success heavy_branch sample_organizer =
     Inr (success,
          [ChainReorganize sample_fork_point [mark_valid 2 7 heavy_sibling],
           PoolRemove [mark_valid 2 7 heavy_sibling], PoolPrune 2,
           PoolAddList [sample_block 3 2 3],
           SubscriberRelay success 1 [mark_valid 2 7 heavy_sibling] [sample_block 3 2 3]],
          sample_organizer\<lparr>fast_chain := snd (snd r), block_pool := [sample_block 3 2 3]\<rparr>)"
    by (simp only: blocks fork heights pool)
  from claim running check path fresh height accept connect calm top br_def threshold' more swap
  have "organize sample_env no_stop sample_organizer heavy_sibling =
        Inr (success,
             [ValidatorCheck heavy_sibling, ValidatorAccept heavy_branch,
              ValidatorConnect heavy_branch,
              ChainReorganize (branch_fork_point br) (branch_blocks br),
              PoolRemove (branch_blocks br), PoolPrune (branch_top_height br),
              PoolAddList [sample_block 3 2 3],
              SubscriberRelay success (branch_height br) (branch_blocks br)
                [sample_block 3 2 3]],
             sample_organizer\<lparr>fast_chain := snd (snd r),
               block_pool :=
                 pool_add_list sample_env [sample_block 3 2 3]
                   (pool_prune sample_env (branch_top_height br)
                     (pool_remove sample_env (branch_blocks br)
                       (block_pool sample_organizer)))\<rparr>)"
    by blast
  then have b: "organize sample_env no_stop sample_organizer heavy_sibling =
        Inr (success,
             [ValidatorCheck heavy_sibling, ValidatorAccept heavy_branch,
              ValidatorConnect heavy_branch,
              ChainReorganize sample_fork_point [mark_valid 2 7 heavy_sibling],
              PoolRemove [mark_valid 2 7 heavy_sibling], PoolPrune 2,
              PoolAddList [sample_block 3 2 3],
              SubscriberRelay success 1 [mark_valid 2 7 heavy_sibling] [sample_block 3 2 3]],
             sample_organizer\<lparr>fast_chain := snd (snd r), block_pool := [sample_block 3 2 3]\<rparr>)"
    by (simp only: blocks fork heights pool)
  from a b tip running top threshold work height show ?thesis by blast
qed

section \<open>Duplicates and orphans\<close>

text \<open>
  C4. For an organizer that is not stopped and a block that passes the stateless
  check (the two exits that precede the path lookup), \<open>organize\<close> takes its
  \<open>duplicate_block\<close> exit exactly when \<open>get_path\<close> yields an empty branch or the
  block's own hash exists in the confirmed chain; on that exit the only validator
  phase run is \<open>check\<close> and the organizer's state is returned as it was. If moreover
  no later phase (accept, connect, the store's swap) reports \<open>duplicate_block\<close> of its
  own, the code \<open>duplicate_block\<close> is returned in no other case.
\<close>

theorem organize_duplicate_block:
  assumes "\<not> stopped organizer" and "validator_check env blk = success"
  shows "((branch_empty (pool_get_path env (block_pool organizer) blk) \<or>
           get_block_exists (fast_chain organizer) (block_hash blk)) =
          (organize env sched organizer blk =
             Inr (duplicate_block, [ValidatorCheck blk], organizer))) \<and>
         ((\<forall>chain br. validator_accept env chain br \<noteq> duplicate_block) \<longrightarrow>
          (\<forall>chain br. validator_connect env chain br \<noteq> duplicate_block) \<longrightarrow>
          (\<forall>fork_point incoming outgoing db.
              fst (database_reorganize env fork_point incoming outgoing db) \<noteq> duplicate_block) \<longrightarrow>
          ((branch_empty (pool_get_path env (block_pool organizer) blk) \<or>
            get_block_exists (fast_chain organizer) (block_hash blk)) =
           (\<exists>calls organizer'. organize env sched organizer blk =
              Inr (duplicate_block, calls, organizer'))))"
proof (rule conjI)
  show "(branch_empty (pool_get_path env (block_pool organizer) blk) \<or>
           get_block_exists (fast_chain organizer) (block_hash blk)) =
          (organize env sched organizer blk =
             Inr (duplicate_block, [ValidatorCheck blk], organizer))"
    using assms
    by (auto simp: organize_def Let_def split: option.splits sum.splits prod.splits)
next
  show "(\<forall>chain br. validator_accept env chain br \<noteq> duplicate_block) \<longrightarrow>
          (\<forall>chain br. validator_connect env chain br \<noteq> duplicate_block) \<longrightarrow>
          (\<forall>fork_point incoming outgoing db.
              fst (database_reorganize env fork_point incoming outgoing db) \<noteq> duplicate_block) \<longrightarrow>
          ((branch_empty (pool_get_path env (block_pool organizer) blk) \<or>
            get_block_exists (fast_chain organizer) (block_hash blk)) =
           (\<exists>calls organizer'. organize env sched organizer blk =
              Inr (duplicate_block, calls, organizer')))"
  proof (intro impI)
    assume accept: "\<forall>chain br. validator_accept env chain br \<noteq> duplicate_block"
      and connect: "\<forall>chain br. validator_connect env chain br \<noteq> duplicate_block"
      and swap: "\<forall>fork_point incoming outgoing db.
              fst (database_reorganize env fork_point incoming outgoing db) \<noteq> duplicate_block"
    have reorg: "fst (reorganize env fp inc out chain) \<noteq> duplicate_block"
      for fp inc out chain
      using swap [rule_format, of fp inc out "database chain"]
      by (auto simp: reorganize_def handle_reorganize_def split: prod.splits if_splits)
    have reorganized: "handle_reorganized env ec br out s = (duplicate_block, calls, s') \<Longrightarrow>
        ec = duplicate_block" for ec br out s calls s'
      by (auto simp: handle_reorganized_def split: if_splits)
    have connect_exit: "handle_connect env ec br s = Inr (duplicate_block, calls, s') \<Longrightarrow>
        ec = duplicate_block" for ec br s calls s'
    proof -
      assume run: "handle_connect env ec br s = Inr (duplicate_block, calls, s')"
      show "ec = duplicate_block"
      proof (rule ccontr)
        assume other: "ec \<noteq> duplicate_block"
        from run other show False
          using reorg reorganized
          by (auto simp: handle_connect_def Let_def split: if_splits option.splits prod.splits)
             (metis fst_conv)+
      qed
    qed
    have accept_exit: "handle_accept env sched ec br s = Inr (duplicate_block, calls, s') \<Longrightarrow>
        ec = duplicate_block" for ec br s calls s'
      using connect
      by (auto simp: handle_accept_def Let_def split: if_splits sum.splits prod.splits
          dest!: connect_exit)
    show "(branch_empty (pool_get_path env (block_pool organizer) blk) \<or>
            get_block_exists (fast_chain organizer) (block_hash blk)) =
           (\<exists>calls organizer'. organize env sched organizer blk =
              Inr (duplicate_block, calls, organizer'))"
      using assms accept
      by (auto simp: organize_def Let_def split: option.splits sum.splits prod.splits
          dest!: accept_exit)
  qed
qed

lemma store_reorganize_code:
  "fst (store_reorganize fork_point incoming outgoing db) \<noteq> duplicate_block"
  by (simp add: store_reorganize_def split: option.splits prod.splits)

theorem organize_duplicate_block_witness:
  "\<not> stopped sample_organizer \<and>
   validator_check sample_env (sample_block 3 2 3) = success \<and>
   get_block_exists (fast_chain sample_organizer) (block_hash (sample_block 3 2 3)) \<and>
   organize sample_env no_stop sample_organizer (sample_block 3 2 3) =
     Inr (duplicate_block, [ValidatorCheck (sample_block 3 2 3)], sample_organizer) \<and>
   \<not> branch_empty (pool_get_path sample_env (block_pool sample_organizer) light_sibling) \<and>
   \<not> get_block_exists (fast_chain sample_organizer) (block_hash light_sibling) \<and>
   organize sample_env no_stop sample_organizer light_sibling \<noteq>
     Inr (duplicate_block, [ValidatorCheck light_sibling], sample_organizer) \<and>
   (\<nexists>calls organizer'. organize sample_env no_stop sample_organizer light_sibling =
     Inr (duplicate_block, calls, organizer'))"
proof -
  have running: "\<not> stopped sample_organizer" by code_simp
  have check: "validator_check sample_env blk = success" for blk
    by (simp add: sample_env_def)
  have known: "get_block_exists (fast_chain sample_organizer) (block_hash (sample_block 3 2 3))"
    by code_simp
  have path: "\<not> branch_empty (pool_get_path sample_env (block_pool sample_organizer)
      light_sibling)"
    by code_simp
  have fresh: "\<not> get_block_exists (fast_chain sample_organizer) (block_hash light_sibling)"
    by code_simp
  have accept: "\<forall>chain br. validator_accept sample_env chain br \<noteq> duplicate_block"
    by (simp add: sample_env_def)
  have connect: "\<forall>chain br. validator_connect sample_env chain br \<noteq> duplicate_block"
    by (simp add: sample_env_def)
  have swap: "\<forall>fork_point incoming outgoing db.
      fst (database_reorganize sample_env fork_point incoming outgoing db) \<noteq> duplicate_block"
    by (simp add: sample_env_def store_reorganize_code)
  note known_case = organize_duplicate_block [OF running check, of "sample_block 3 2 3" no_stop]
  note fresh_case = organize_duplicate_block [OF running check, of light_sibling no_stop]
  from known_case known
  have a: "organize sample_env no_stop sample_organizer (sample_block 3 2 3) =
     Inr (duplicate_block, [ValidatorCheck (sample_block 3 2 3)], sample_organizer)"
    by blast
  from fresh_case path fresh
  have b: "organize sample_env no_stop sample_organizer light_sibling \<noteq>
     Inr (duplicate_block, [ValidatorCheck light_sibling], sample_organizer)"
    by blast
  from fresh_case path fresh accept connect swap
  have c: "\<nexists>calls organizer'. organize sample_env no_stop sample_organizer light_sibling =
     Inr (duplicate_block, calls, organizer')"
    by blast
  from running check known a path fresh b c show ?thesis by blast
qed

text \<open>
  C5. For an organizer that is not stopped and a block that passes the stateless
  check and the duplicate test (its walked branch is not empty and its own hash is not
  in the chain), if the parent hash of the branch does not resolve to a height in the
  confirmed chain then \<open>organize\<close> hands \<open>orphan_block\<close> to the handler, having run no
  phase but \<open>check\<close> and having called nothing on the pool: the organizer, its pool
  included, is returned as it was. More generally, whenever that hash does not
  resolve, whichever exit is taken, \<open>organize\<close> calls at most \<open>check\<close> and returns
  the organizer unchanged.
\<close>

theorem organize_orphan_block:
  assumes "\<not> stopped organizer"
    and "validator_check env blk = success"
    and "\<not> branch_empty (pool_get_path env (block_pool organizer) blk)"
    and "\<not> get_block_exists (fast_chain organizer) (block_hash blk)"
    and "get_height (fast_chain organizer)
           (branch_hash (pool_get_path env (block_pool organizer) blk)) = None"
  shows "organize env sched organizer blk =
           Inr (orphan_block, [ValidatorCheck blk], organizer) \<and>
         (\<forall>any_sched any_organizer.
            get_height (fast_chain any_organizer)
              (branch_hash (pool_get_path env (block_pool any_organizer) blk)) = None \<longrightarrow>
            (\<exists>result calls.
               organize env any_sched any_organizer blk = Inr (result, calls, any_organizer) \<and>
               (calls = [] \<or> calls = [ValidatorCheck blk])))"
proof (rule conjI)
  show "organize env sched organizer blk = Inr (orphan_block, [ValidatorCheck blk], organizer)"
    using assms by (simp add: organize_def Let_def set_branch_height_def)
next
  show "\<forall>any_sched any_organizer.
            get_height (fast_chain any_organizer)
              (branch_hash (pool_get_path env (block_pool any_organizer) blk)) = None \<longrightarrow>
            (\<exists>result calls.
               organize env any_sched any_organizer blk = Inr (result, calls, any_organizer) \<and>
               (calls = [] \<or> calls = [ValidatorCheck blk]))"
    by (simp add: organize_def Let_def set_branch_height_def)
qed

theorem organize_orphan_block_witness:
  "\<not> stopped sample_organizer \<and>
   validator_check sample_env parentless_block = success \<and>
   \<not> branch_empty (pool_get_path sample_env (block_pool sample_organizer) parentless_block) \<and>
   \<not> get_block_exists (fast_chain sample_organizer) (block_hash parentless_block) \<and>
   get_height (fast_chain sample_organizer)
     (branch_hash (pool_get_path sample_env (block_pool sample_organizer) parentless_block)) =
     None \<and>
   organize sample_env no_stop sample_organizer parentless_block =
     Inr (orphan_block, [ValidatorCheck parentless_block], sample_organizer)"
proof -
  have running: "\<not> stopped sample_organizer" by code_simp
  have check: "validator_check sample_env parentless_block = success"
    by (simp add: sample_env_def)
  have path: "\<not> branch_empty (pool_get_path sample_env (block_pool sample_organizer)
      parentless_block)"
    by code_simp
  have fresh: "\<not> get_block_exists (fast_chain sample_organizer) (block_hash parentless_block)"
    by code_simp
  have unknown: "get_height (fast_chain sample_organizer)
     (branch_hash (pool_get_path sample_env (block_pool sample_organizer) parentless_block)) =
     None"
    by code_simp
  from organize_orphan_block [OF running check path fresh unknown, of no_stop]
  have "organize sample_env no_stop sample_organizer parentless_block =
     Inr (orphan_block, [ValidatorCheck parentless_block], sample_organizer)"
    by blast
  with running check path fresh unknown show ?thesis by blast
qed

section \<open>Stopping\<close>

lemma organize_stopped:
  "stopped organizer \<Longrightarrow> organize env sched organizer blk = Inr (service_stopped, [], organizer)"
  by (simp add: organize_def)

lemma handle_accept_stopped:
  "stopped organizer \<Longrightarrow>
   handle_accept env sched ec br organizer = Inr (service_stopped, [], organizer)"
  by (simp add: handle_accept_def)

lemma handle_connect_stopped:
  "stopped organizer \<Longrightarrow> handle_connect env ec br organizer = Inr (service_stopped, [], organizer)"
  by (simp add: handle_connect_def)

lemma organize_all_stopped:
  "stopped organizer \<Longrightarrow>
   organize_all env organizer jobs = Inr (map (\<lambda>job. service_stopped) jobs, organizer)"
  by (induction jobs) (auto simp: organize_stopped)

lemma interleave_stop_True:
  "interleave_stop True organizer =
     ([ValidatorStop, SubscriberStop, SubscriberInvoke service_stopped 0 [] []],
      organizer\<lparr>stopped := True\<rparr>)"
  by (simp add: interleave_stop_def stop_def)

text \<open>
  C6. Let \<open>stop\<close> have returned the organizer \<open>halted\<close>. Then \<open>halted\<close> is stopped;
  \<open>organize\<close> on it hands \<open>service_stopped\<close> to the handler with no call made and
  the state unchanged, and so does every \<open>organize\<close> of any later run of calls;
  \<open>handle_accept\<close> and \<open>handle_connect\<close>, the re-entry points after the accept and
  the connect phase, also answer \<open>service_stopped\<close> at once. An \<open>organize\<close> in flight
  on a running organizer sees a \<open>stop\<close> that arrives during the accept phase, or
  during the connect phase, at the next re-entry point and ends with
  \<open>service_stopped\<close>. The calls \<open>stop\<close> makes are: stop the validator, stop the
  subscriber, one \<open>invoke(service_stopped, 0, {}, {})\<close>; with the subscriber as
  modelled from the specification every live subscriber is delivered that one event
  and none stays subscribed.
\<close>

theorem organize_after_stop:
  assumes "stop organizer = (ok, stop_calls, halted)"
  shows "stopped halted \<and>
         organize env sched halted blk = Inr (service_stopped, [], halted) \<and>
         organize_all env halted jobs = Inr (map (\<lambda>job. service_stopped) jobs, halted) \<and>
         handle_accept env sched ec br halted = Inr (service_stopped, [], halted) \<and>
         handle_connect env ec br halted = Inr (service_stopped, [], halted) \<and>
         (\<forall>running br'.
            \<not> stopped running \<longrightarrow>
            validator_check env blk = success \<longrightarrow>
            \<not> branch_empty (pool_get_path env (block_pool running) blk) \<longrightarrow>
            \<not> get_block_exists (fast_chain running) (block_hash blk) \<longrightarrow>
            set_branch_height running (pool_get_path env (block_pool running) blk) = Some br' \<longrightarrow>
            stop_during_accept sched \<longrightarrow>
            organize env sched running blk =
              Inr (service_stopped,
                   [ValidatorCheck blk, ValidatorAccept br', ValidatorStop, SubscriberStop,
                    SubscriberInvoke service_stopped 0 [] []],
                   running\<lparr>stopped := True\<rparr>)) \<and>
         (\<forall>running.
            \<not> stopped running \<longrightarrow>
            stop_during_connect sched \<longrightarrow>
            handle_accept env sched success br running =
              Inr (service_stopped,
                   [ValidatorConnect br, ValidatorStop, SubscriberStop,
                    SubscriberInvoke service_stopped 0 [] []],
                   running\<lparr>stopped := True\<rparr>)) \<and>
         stop_calls = [ValidatorStop, SubscriberStop, SubscriberInvoke service_stopped 0 [] []] \<and>
         deliveries (subscriber_run stop_calls sub) =
           deliveries sub @
             map (\<lambda>handler. (handler, (service_stopped, 0, [], []))) (subscriptions sub) \<and>
         subscriptions (subscriber_run stop_calls sub) = []"
proof -
  from assms have halted: "halted = organizer\<lparr>stopped := True\<rparr>"
    and calls: "stop_calls = [ValidatorStop, SubscriberStop,
                              SubscriberInvoke service_stopped 0 [] []]"
    by (auto simp: stop_def)
  from halted have is_stopped: "stopped halted" by simp
  have in_accept: "\<forall>running br'.
            \<not> stopped running \<longrightarrow>
            validator_check env blk = success \<longrightarrow>
            \<not> branch_empty (pool_get_path env (block_pool running) blk) \<longrightarrow>
            \<not> get_block_exists (fast_chain running) (block_hash blk) \<longrightarrow>
            set_branch_height running (pool_get_path env (block_pool running) blk) = Some br' \<longrightarrow>
            stop_during_accept sched \<longrightarrow>
            organize env sched running blk =
              Inr (service_stopped,
                   [ValidatorCheck blk, ValidatorAccept br', ValidatorStop, SubscriberStop,
                    SubscriberInvoke service_stopped 0 [] []],
                   running\<lparr>stopped := True\<rparr>)"
    by (simp add: organize_def Let_def interleave_stop_True handle_accept_stopped)
  have in_connect: "\<forall>running.
            \<not> stopped running \<longrightarrow>
            stop_during_connect sched \<longrightarrow>
            handle_accept env sched success br running =
              Inr (service_stopped,
                   [ValidatorConnect br, ValidatorStop, SubscriberStop,
                    SubscriberInvoke service_stopped 0 [] []],
                   running\<lparr>stopped := True\<rparr>)"
    by (simp add: handle_accept_def Let_def interleave_stop_True handle_connect_stopped)
  have fan_out: "deliveries (subscriber_run stop_calls sub) =
           deliveries sub @
             map (\<lambda>handler. (handler, (service_stopped, 0, [], []))) (subscriptions sub)"
    and released: "subscriptions (subscriber_run stop_calls sub) = []"
    by (simp_all add: calls subscriber_notify_def)
  from is_stopped in_accept in_connect calls fan_out released
  show ?thesis
    by (simp add: organize_stopped organize_all_stopped handle_accept_stopped
        handle_connect_stopped)
qed

theorem organize_after_stop_witness:
  "fst (snd (stop sample_organizer)) =
     [ValidatorStop, SubscriberStop, SubscriberInvoke service_stopped 0 [] []] \<and>
   stopped (snd (snd (stop sample_organizer))) \<and>
   organize sample_env no_stop (snd (snd (stop sample_organizer))) light_sibling =
     Inr (service_stopped, [], snd (snd (stop sample_organizer))) \<and>
   organize_all sample_env (snd (snd (stop sample_organizer)))
       [(no_stop, light_sibling), (no_stop, heavy_sibling)] =
     Inr ([service_stopped, service_stopped], snd (snd (stop sample_organizer))) \<and>
   deliveries (subscriber_run (fst (snd (stop sample_organizer)))
       \<lparr>subscriber_stopped = False, subscriptions = [1, 2], deliveries = []\<rparr>) =
     [(1, (service_stopped, 0, [], [])), (2, (service_stopped, 0, [], []))] \<and>
   \<not> stopped sample_organizer \<and>
   set_branch_height sample_organizer
     (pool_get_path sample_env (block_pool sample_organizer) light_sibling) = Some light_branch \<and>
   organize sample_env \<lparr>stop_during_accept = True, stop_during_connect = False\<rparr>
       sample_organizer light_sibling =
     Inr (service_stopped,
          [ValidatorCheck light_sibling, ValidatorAccept light_branch, ValidatorStop,
           SubscriberStop, SubscriberInvoke service_stopped 0 [] []],
          sample_organizer\<lparr>stopped := True\<rparr>)"
proof -
  define halted where "halted = snd (snd (stop sample_organizer))"
  define stop_calls where "stop_calls = fst (snd (stop sample_organizer))"
  have run: "stop sample_organizer = (fst (stop sample_organizer), stop_calls, halted)"
    by (simp add: halted_def stop_calls_def)
  have codes: "map (\<lambda>job. service_stopped) [(no_stop, light_sibling), (no_stop, heavy_sibling)] =
      [service_stopped, service_stopped]"
    by simp
  have events: "deliveries \<lparr>subscriber_stopped = False, subscriptions = [1, 2], deliveries = []\<rparr>
      @ map (\<lambda>handler. (handler, (service_stopped, 0, [], [])))
          (subscriptions \<lparr>subscriber_stopped = False, subscriptions = [1, 2],
             deliveries = []\<rparr>) =
      [(1, (service_stopped, 0, [], [])), (2, (service_stopped, 0, [], []))]"
    by simp
  have running: "\<not> stopped sample_organizer" by code_simp
  have check: "validator_check sample_env light_sibling = success"
    by (simp add: sample_env_def)
  have path: "\<not> branch_empty (pool_get_path sample_env (block_pool sample_organizer)
      light_sibling)"
    by code_simp
  have fresh: "\<not> get_block_exists (fast_chain sample_organizer) (block_hash light_sibling)"
    by code_simp
  have height: "set_branch_height sample_organizer
     (pool_get_path sample_env (block_pool sample_organizer) light_sibling) = Some light_branch"
    by code_simp
  have stops: "stop_during_accept \<lparr>stop_during_accept = True, stop_during_connect = False\<rparr>"
    by simp
  note after = organize_after_stop [OF run, of sample_env no_stop light_sibling
      "[(no_stop, light_sibling), (no_stop, heavy_sibling)]" success light_branch
      "\<lparr>subscriber_stopped = False, subscriptions = [1, 2], deliveries = []\<rparr>",
      unfolded codes events]
  note in_flight = organize_after_stop [OF run, of sample_env
      "\<lparr>stop_during_accept = True, stop_during_connect = False\<rparr>" light_sibling]
  from in_flight running check path fresh height stops
  have flight: "organize sample_env \<lparr>stop_during_accept = True, stop_during_connect = False\<rparr>
       sample_organizer light_sibling =
     Inr (service_stopped,
          [ValidatorCheck light_sibling, ValidatorAccept light_branch, ValidatorStop,
           SubscriberStop, SubscriberInvoke service_stopped 0 [] []],
          sample_organizer\<lparr>stopped := True\<rparr>)"
    by blast
  from after flight running height show ?thesis
    unfolding halted_def stop_calls_def by blast
qed

section \<open>Sequence-locked reads\<close>

lemma read_serial_shape:
  assumes finished: "\<And>att c. fst (reader att c) = attempt_read_valid att"
    and handled: "\<And>att c. fst (snd (reader att c)) =
                    (if attempt_read_valid att then [args att c] else [])"
  shows "read_serial reader sched captured = Some (events, captured') \<Longrightarrow>
    \<exists>retried good rest seen.
      sched = retried @ good # rest \<and>
      (\<forall>att \<in> set retried. attempt_write_locked att \<or> \<not> attempt_read_valid att) \<and>
      \<not> attempt_write_locked good \<and> attempt_read_valid good \<and>
      events =
        concat (map (\<lambda>att. [BeginRead (attempt_sequence att), Sleep spin_lock_sleep]) retried) @
        [BeginRead (attempt_sequence good), Handler (args good seen)]"
proof (induction sched arbitrary: captured events captured')
  case Nil
  then show ?case by simp
next
  case (Cons att sched)
  show ?case
  proof (cases "attempt_write_locked att")
    case True
    with Cons.prems obtain events0 where
      rec: "read_serial reader sched captured = Some (events0, captured')"
      and ev: "events = BeginRead (attempt_sequence att) # Sleep spin_lock_sleep # events0"
      by (auto split: option.splits)
    from Cons.IH [OF rec] obtain retried good rest seen where ih:
      "sched = retried @ good # rest"
      "\<forall>a \<in> set retried. attempt_write_locked a \<or> \<not> attempt_read_valid a"
      "\<not> attempt_write_locked good" "attempt_read_valid good"
      "events0 =
        concat (map (\<lambda>a. [BeginRead (attempt_sequence a), Sleep spin_lock_sleep]) retried) @
        [BeginRead (attempt_sequence good), Handler (args good seen)]"
      by blast
    have "att # sched = (att # retried) @ good # rest" using ih(1) by simp
    moreover have "\<forall>a \<in> set (att # retried). attempt_write_locked a \<or> \<not> attempt_read_valid a"
      using True ih(2) by simp
    moreover have "events =
        concat (map (\<lambda>a. [BeginRead (attempt_sequence a), Sleep spin_lock_sleep])
                 (att # retried)) @
        [BeginRead (attempt_sequence good), Handler (args good seen)]"
      using ev ih(5) by simp
    ultimately show ?thesis using ih(3,4) by blast
  next
    case False
    obtain fin hs c1 where r: "reader att captured = (fin, hs, c1)"
      by (cases "reader att captured") auto
    from finished [of att captured] handled [of att captured] r
    have fin: "fin = attempt_read_valid att"
      and hs: "hs = (if attempt_read_valid att then [args att captured] else [])"
      by simp_all
    show ?thesis
    proof (cases "attempt_read_valid att")
      case True
      with Cons.prems False r fin hs
      have ev: "events = [BeginRead (attempt_sequence att), Handler (args att captured)]"
        by simp
      have "att # sched = [] @ att # sched" by simp
      moreover have "\<forall>a \<in> set []. attempt_write_locked a \<or> \<not> attempt_read_valid a" by simp
      moreover have "events =
        concat (map (\<lambda>a. [BeginRead (attempt_sequence a), Sleep spin_lock_sleep]) []) @
        [BeginRead (attempt_sequence att), Handler (args att captured)]"
        using ev by simp
      ultimately show ?thesis using False True by blast
    next
      case invalid: False
      with Cons.prems False r fin hs obtain events0 where
        rec: "read_serial reader sched c1 = Some (events0, captured')"
        and ev: "events = BeginRead (attempt_sequence att) # Sleep spin_lock_sleep # events0"
        by (auto split: option.splits)
      from Cons.IH [OF rec] obtain retried good rest seen where ih:
        "sched = retried @ good # rest"
        "\<forall>a \<in> set retried. attempt_write_locked a \<or> \<not> attempt_read_valid a"
        "\<not> attempt_write_locked good" "attempt_read_valid good"
        "events0 =
          concat (map (\<lambda>a. [BeginRead (attempt_sequence a), Sleep spin_lock_sleep]) retried) @
          [BeginRead (attempt_sequence good), Handler (args good seen)]"
        by blast
      have "att # sched = (att # retried) @ good # rest" using ih(1) by simp
      moreover have "\<forall>a \<in> set (att # retried).
          attempt_write_locked a \<or> \<not> attempt_read_valid a"
        using invalid ih(2) by simp
      moreover have "events =
          concat (map (\<lambda>a. [BeginRead (attempt_sequence a), Sleep spin_lock_sleep])
                   (att # retried)) @
          [BeginRead (attempt_sequence good), Handler (args good seen)]"
        using ev ih(5) by simp
      ultimately show ?thesis using ih(3,4) by blast
    qed
  qed
qed

lemma read_serial_returns:
  assumes finished: "\<And>att c. fst (reader att c) = attempt_read_valid att"
  shows "\<exists>att \<in> set sched. \<not> attempt_write_locked att \<and> attempt_read_valid att \<Longrightarrow>
    read_serial reader sched captured \<noteq> None"
proof (induction sched arbitrary: captured)
  case Nil
  then show ?case by simp
next
  case (Cons att sched)
  show ?case
  proof (cases "\<not> attempt_write_locked att \<and> attempt_read_valid att")
    case True
    obtain fin hs c1 where r: "reader att captured = (fin, hs, c1)"
      by (cases "reader att captured") auto
    with finished [of att captured] True have "fin" by simp
    with True r show ?thesis by simp
  next
    case False
    with Cons.prems
    have later: "\<exists>a \<in> set sched. \<not> attempt_write_locked a \<and> attempt_read_valid a"
      by auto
    obtain fin hs c1 where r: "reader att captured = (fin, hs, c1)"
      by (cases "reader att captured") auto
    with finished [of att captured] have fin: "fin = attempt_read_valid att" by simp
    from Cons.IH [OF later, of captured] Cons.IH [OF later, of c1] False r fin
    show ?thesis by (auto split: option.splits)
  qed
qed

lemma fetch_reader_finished:
  "fst (fetch_reader query att c) = attempt_read_valid att"
  by (simp add: fetch_reader_def finish_read_def)

lemma fetch_reader_handled:
  "fst (snd (fetch_reader query att c)) =
     (if attempt_read_valid att then [query (attempt_view att)] else [])"
  by (simp add: fetch_reader_def finish_read_def)

lemma fetch_reader_captured: "snd (snd (fetch_reader query att c)) = c"
  by (simp add: fetch_reader_def finish_read_def)

lemma filter_blocks_reader_finished:
  "fst (filter_blocks_reader is_block_type pool_filter att c) = attempt_read_valid att"
  by (simp add: filter_blocks_reader_def finish_read_def Let_def)

lemma filter_blocks_reader_handled:
  "fst (snd (filter_blocks_reader is_block_type pool_filter att c)) =
     (if attempt_read_valid att then [success] else [])"
  by (simp add: filter_blocks_reader_def finish_read_def Let_def)

lemma read_serial_fetch_captured:
  "read_serial (fetch_reader query) sched captured = Some (events, captured') \<Longrightarrow>
   captured' = captured"
proof (induction sched arbitrary: events)
  case Nil
  then show ?case by simp
next
  case (Cons att sched)
  obtain fin hs c1 where r: "fetch_reader query att captured = (fin, hs, c1)"
    by (cases "fetch_reader query att captured") auto
  with fetch_reader_captured [of query att captured] have c1: "c1 = captured" by simp
  from Cons.prems r c1 Cons.IH show ?case
    by (auto split: if_splits option.splits bool.splits)
qed

text \<open>
  C8 (as amended). A query whose reader returns through \<open>finish_read\<close> runs the
  sequence-lock protocol: each pass takes a handle; a pass whose handle indicates a
  write lock, or whose sequence is no longer valid after the reads, calls no handler
  and is followed by a sleep of one millisecond and a new pass; the handler is called
  once, in the first pass that is neither, with what that pass read. So the arguments
  a handler receives never come from an invalidated read, and a \<open>fetch_*\<close> query
  changes nothing else. The filter queries keep this protocol for their handler (it
  receives \<open>success\<close> only after a valid pass). The query returns once the schedule
  holds a pass that is not write-locked and stays valid.
\<close>

theorem read_serial_hands_over_valid_read:
  "(\<forall>events captured'.
      read_serial (fetch_reader query) sched captured = Some (events, captured') \<longrightarrow>
      (\<exists>retried good rest.
          sched = retried @ good # rest \<and>
          (\<forall>att \<in> set retried. attempt_write_locked att \<or> \<not> attempt_read_valid att) \<and>
          \<not> attempt_write_locked good \<and> attempt_read_valid good \<and>
          events =
            concat (map (\<lambda>att. [BeginRead (attempt_sequence att), Sleep spin_lock_sleep])
                     retried) @
            [BeginRead (attempt_sequence good), Handler (query (attempt_view good))] \<and>
          captured' = captured)) \<and>
   (\<forall>is_block_type pool_filter message events message'.
      read_serial (filter_blocks_reader is_block_type pool_filter) sched message =
        Some (events, message') \<longrightarrow>
      (\<exists>retried good rest.
          sched = retried @ good # rest \<and>
          (\<forall>att \<in> set retried. attempt_write_locked att \<or> \<not> attempt_read_valid att) \<and>
          \<not> attempt_write_locked good \<and> attempt_read_valid good \<and>
          events =
            concat (map (\<lambda>att. [BeginRead (attempt_sequence att), Sleep spin_lock_sleep])
                     retried) @
            [BeginRead (attempt_sequence good), Handler success])) \<and>
   ((\<exists>att \<in> set sched. \<not> attempt_write_locked att \<and> attempt_read_valid att) \<longrightarrow>
      read_serial (fetch_reader query) sched captured \<noteq> None)"
proof (intro conjI allI impI)
  fix events captured'
  assume run: "read_serial (fetch_reader query) sched captured = Some (events, captured')"
  from read_serial_shape [where reader = "fetch_reader query"
      and args = "\<lambda>att c. query (attempt_view att)", OF fetch_reader_finished
      fetch_reader_handled run]
    read_serial_fetch_captured [OF run]
  show "\<exists>retried good rest.
          sched = retried @ good # rest \<and>
          (\<forall>att \<in> set retried. attempt_write_locked att \<or> \<not> attempt_read_valid att) \<and>
          \<not> attempt_write_locked good \<and> attempt_read_valid good \<and>
          events =
            concat (map (\<lambda>att. [BeginRead (attempt_sequence att), Sleep spin_lock_sleep])
                     retried) @
            [BeginRead (attempt_sequence good), Handler (query (attempt_view good))] \<and>
          captured' = captured"
    by blast
next
  fix is_block_type pool_filter message events message'
  assume run: "read_serial (filter_blocks_reader is_block_type pool_filter) sched message =
      Some (events, message')"
  from read_serial_shape [where reader = "filter_blocks_reader is_block_type pool_filter"
      and args = "\<lambda>att c. success", OF filter_blocks_reader_finished
      filter_blocks_reader_handled run]
  show "\<exists>retried good rest.
          sched = retried @ good # rest \<and>
          (\<forall>att \<in> set retried. attempt_write_locked att \<or> \<not> attempt_read_valid att) \<and>
          \<not> attempt_write_locked good \<and> attempt_read_valid good \<and>
          events =
            concat (map (\<lambda>att. [BeginRead (attempt_sequence att), Sleep spin_lock_sleep])
                     retried) @
            [BeginRead (attempt_sequence good), Handler success]"
    by blast
next
  assume "\<exists>att \<in> set sched. \<not> attempt_write_locked att \<and> attempt_read_valid att"
  from read_serial_returns [where reader = "fetch_reader query", OF fetch_reader_finished this]
  show "read_serial (fetch_reader query) sched captured \<noteq> None" .
qed

theorem read_serial_hands_over_valid_read_witness:
  "\<not> attempt_write_locked pass_after_swap \<and> attempt_read_valid pass_after_swap \<and>
   read_serial (fetch_reader last_height_query)
       [pass_before_swap, pass_during_swap, pass_after_swap] () \<noteq> None \<and>
   fetch_last_height sample_chain [pass_before_swap, pass_during_swap, pass_after_swap] =
     Some ([BeginRead 0, Sleep 1, BeginRead 1, Sleep 1, BeginRead 2, Handler (success, 2)], ())"
proof -
  have unlocked: "\<not> attempt_write_locked pass_after_swap" by code_simp
  have valid: "attempt_read_valid pass_after_swap" by code_simp
  have run: "fetch_last_height sample_chain
      [pass_before_swap, pass_during_swap, pass_after_swap] =
     Some ([BeginRead 0, Sleep 1, BeginRead 1, Sleep 1, BeginRead 2, Handler (success, 2)], ())"
    by code_simp
  from unlocked valid
  have "\<exists>att \<in> set [pass_before_swap, pass_during_swap, pass_after_swap].
      \<not> attempt_write_locked att \<and> attempt_read_valid att"
    by simp
  with read_serial_hands_over_valid_read [of last_height_query
      "[pass_before_swap, pass_during_swap, pass_after_swap]" "()"]
  have "read_serial (fetch_reader last_height_query)
       [pass_before_swap, pass_during_swap, pass_after_swap] () \<noteq> None"
    by blast
  with unlocked valid run show ?thesis by blast
qed

text \<open>
  C8 (as stated) fails for \<open>filter_blocks\<close>, here with a pool filter that leaves
  the message alone (the older file's reader has none; the newer one's does so when
  the pool holds neither hash). The inventory asks for the hashes 3 and
  5. A first pass reads the store before the swap, where hash 3 is confirmed, and
  erases it from the caller's message; the swap invalidates the pass, so no handler is
  called. The second pass reads the store after the swap, where hash 5 is confirmed
  and hash 3 no longer is, erases hash 5 and calls the handler. The caller is left
  with an empty message, whereas the valid pass alone leaves hash 3 in it: the
  erasure made by the invalidated read is what the caller sees.
\<close>

theorem filter_blocks_keeps_invalidated_erasure:
  "filter_blocks sample_chain block_inventory id [pass_before_swap, pass_after_swap]
       sample_inventory =
     Some ([BeginRead 0, Sleep 1, BeginRead 2, Handler success], []) \<and>
   filter_blocks sample_chain block_inventory id [pass_after_swap] sample_inventory =
     Some ([BeginRead 2, Handler success],
           [\<lparr>inventory_type = inv_block, inventory_hash = 3\<rparr>])"
  by code_simp

end
